theory Spec2Isabelle
  imports Complex_Main "HOL-Library.Word" "HOL-Library.Signed_Division"
begin

section \<open>Machine types of the ATmega2560 build\<close>

text \<open>
  The firmware targets the Arduino Mega 2560 (header of \<^verbatim>\<open>main.cpp\<close>): \<^verbatim>\<open>int\<close> and
  \<^verbatim>\<open>unsigned int\<close> are 16 bits wide, \<^verbatim>\<open>long\<close> is 32 bits wide, and the fields of FastLED's
  \<^verbatim>\<open>CHSV\<close> and \<^verbatim>\<open>CRGB\<close> are \<^verbatim>\<open>uint8_t\<close>. A 16-bit \<^verbatim>\<open>int\<close> is kept as a \<open>16 word\<close> and read
  with \<open>sint\<close> wherever the source compares or widens it as a signed number; an
  \<^verbatim>\<open>unsigned int\<close> is a \<open>16 word\<close> compared with the unsigned order of words. Signed
  arithmetic wraps around as the generated AVR code does; every statement below that
  depends on a signed result keeps the operands in the range where C defines it.
\<close>

type_synonym u8 = "8 word"
type_synonym u16 = "16 word"
type_synonym i16 = "16 word"

record chsv =
  hue :: u8
  sat :: u8
  val :: u8

record crgb =
  red :: u8
  green :: u8
  blue :: u8

text \<open>
  The FastLED operations the firmware calls on pixels are library code outside the
  repository; they are parameters of the model: the conversion performed by the assignment
  \<^verbatim>\<open>CRGB = CHSV\<close>, \<^verbatim>\<open>CRGB::fadeToBlackBy\<close> and \<^verbatim>\<open>CRGB::getAverageLight\<close>.
\<close>

record fastled =
  hsv2rgb :: "chsv \<Rightarrow> crgb"
  fadeToBlackBy :: "crgb \<Rightarrow> u8 \<Rightarrow> crgb"
  getAverageLight :: "crgb \<Rightarrow> u8"

text \<open>
  The build-time selection: \<^verbatim>\<open>SCULPTURE_ID\<close> (1 for CO2, 2 for PM25, 3 for VOC) and the
  pixel-count macros \<^verbatim>\<open>BAND1\<close>, \<^verbatim>\<open>BAND2\<close>, \<^verbatim>\<open>BAND1_1\<close>, \<^verbatim>\<open>BAND1_2\<close>, \<^verbatim>\<open>BAND1_3\<close>, which
  \<^verbatim>\<open>myfunctions.h\<close> uses and no source file defines.
\<close>

record config =
  SCULPTURE_ID :: int
  BAND1 :: nat
  BAND2 :: nat
  BAND1_1 :: nat
  BAND1_2 :: nat
  BAND1_3 :: nat

datatype error = ReadingsOutOfBounds | LedsOutOfBounds

definition and_then :: "error + 'a \<Rightarrow> ('a \<Rightarrow> error + 'b) \<Rightarrow> error + 'b" where
  "and_then m f = (case m of Inl e \<Rightarrow> Inl e | Inr x \<Rightarrow> f x)"

section \<open>Constants of \<^verbatim>\<open>main.cpp\<close>\<close>

definition CO2band1_1 :: nat where "CO2band1_1 = 25"
definition CO2band1_2 :: nat where "CO2band1_2 = 25"
definition CO2band1_3 :: nat where "CO2band1_3 = 25"
definition CO2band2 :: nat where "CO2band2 = 55"
definition PM25band1 :: nat where "PM25band1 = 55"
definition PM25band2 :: nat where "PM25band2 = 55"
definition VOCband1 :: nat where "VOCband1 = 50"
definition VOCband2 :: nat where "VOCband2 = 50"

definition CO2_1 :: "i16 list" where
  "CO2_1 = [1609, 577, 406, 419, 443, 414, 403, 413, 409, 411, 412, 409, 423, 414, 421,
            434, 421]"

definition CO2_2 :: "i16 list" where
  "CO2_2 = [1685, 642, 618, 698, 697, 778, 450, 664, 648, 676, 425, 504, 550, 481, 640,
            942, 1791, 504, 733, 688, 592, 608, 850, 779, 1876, 646, 648, 659, 893, 422,
            455, 701, 716, 892, 1046, 455, 483, 503, 448, 550]"

definition PM25_1 :: "i16 list" where
  "PM25_1 = [118, 38, 34, 111, 125, 82, 178, 174, 43, 43, 42, 83, 63, 83, 85, 103, 68, 53,
             54, 66]"

definition PM25_2 :: "i16 list" where
  "PM25_2 = [65, 88, 44, 42, 73, 69, 70, 61, 54, 89, 86, 91, 60, 63, 92, 88, 95, 55, 85,
             49, 48, 51, 35, 38, 49, 51, 21, 32, 28, 42, 21, 25]"

definition VOC_1 :: "i16 list" where
  "VOC_1 = [8, 11, 5, 13, 16, 14, 15, 17, 15, 20, 29, 21, 22, 19, 14, 13, 19, 25, 17, 15,
            13, 17, 16, 15, 20, 17]"

definition VOC_2 :: "i16 list" where
  "VOC_2 = [122, 67, 24, 36, 46, 32, 29, 34, 27, 25, 22, 23, 19, 23, 21, 33, 26, 34, 41,
            15, 25, 18]"

definition cblue :: chsv where
  "cblue = \<lparr>hue = 140, sat = 255, val = 255\<rparr>"

definition BAND_DELAY :: int where "BAND_DELAY = 500"

definition IDLE_MODE :: u16 where "IDLE_MODE = 1"
definition BUTTON_MODE :: u16 where "BUTTON_MODE = 2"

section \<open>The global variables\<close>

text \<open>
  One field per global of \<^verbatim>\<open>main.cpp\<close>, under its own name. The three \<^verbatim>\<open>elapsedMillis\<close>
  counters hold the milliseconds since they were last reset.
\<close>

record state =
  isButton0Pressed :: bool
  isButton1Pressed :: bool
  rangeVal :: i16
  loxmsec :: nat
  isUserPresent :: bool
  strip1Color :: chsv
  strip2Color :: chsv
  readings1 :: "i16 list"
  readings2 :: "i16 list"
  leds0 :: "crgb list"
  leds1 :: "crgb list"
  leds2 :: "crgb list"
  leds3 :: "crgb list"
  strip1playMode :: u16
  strip2playMode :: u16
  strip1brightness :: i16
  strip2brightness :: i16
  strip1maxBrightLvl :: i16
  strip2maxBrightLvl :: i16
  strip1hasPlayModeChanged :: bool
  strip2hasPlayModeChanged :: bool
  strip1activeLedState :: i16
  strip2activeLedState :: i16
  strip1isMaxBrightness :: bool
  strip2isMaxBrightness :: bool
  strip1bandms :: nat
  strip2bandms :: nat
  strip1bandDelay :: u16
  strip2bandDelay :: u16
  strip1readingsCounter :: u16
  strip2readingsCounter :: u16
  strip1prevBrightVal :: u16
  strip1currBrightVal :: u16
  strip2prevBrightVal :: u16
  strip2currBrightVal :: u16

text \<open>
  What one pass of \<^verbatim>\<open>loop()\<close> receives from the hardware: the debounced falling edges of
  the two buttons, the measurement that \<^verbatim>\<open>lox.rangingTest\<close> delivers when it is called
  (\<^verbatim>\<open>RangeStatus\<close> is a \<^verbatim>\<open>uint8_t\<close>, \<^verbatim>\<open>RangeMilliMeter\<close> a \<^verbatim>\<open>uint16_t\<close> in the sensor
  library), the pixels that the glitter pass overwrites, and the milliseconds that the
  pass takes.
\<close>

record measurement =
  RangeStatus :: u8
  RangeMilliMeter :: u16

record frame_input =
  button0_fallingEdge :: bool
  button1_fallingEdge :: bool
  ranging :: measurement
  glitter :: "(nat \<times> nat \<times> crgb) list"
  elapsed :: nat

section \<open>Sensor and buttons\<close>

text \<open>
  \<^verbatim>\<open>read_console\<close>. The assignment \<^verbatim>\<open>rangeVal = measure.RangeMilliMeter\<close> stores the 16 bits
  of the reading in the \<^verbatim>\<open>int\<close> \<^verbatim>\<open>rangeVal\<close>, and \<^verbatim>\<open>rangeVal > 1000\<close> compares that \<^verbatim>\<open>int\<close>.
  The \<^verbatim>\<open>Serial\<close> output of this and the other functions does not touch the globals and is
  left out.
\<close>

definition read_console :: "frame_input \<Rightarrow> state \<Rightarrow> state" where
  "read_console inp s =
     (let s1 = (if button0_fallingEdge inp then s\<lparr>isButton0Pressed := True\<rparr> else s);
          s2 = (if button1_fallingEdge inp then s1\<lparr>isButton1Pressed := True\<rparr> else s1)
      in if 100 < loxmsec s2 then
           (let s3 =
              (if RangeStatus (ranging inp) \<noteq> 4 then
                 (let s4 = s2\<lparr>rangeVal := RangeMilliMeter (ranging inp)\<rparr>
                  in if 1000 < sint (rangeVal s4) then s4\<lparr>isUserPresent := False\<rparr>
                     else s4\<lparr>isUserPresent := True\<rparr>)
               else s2\<lparr>isUserPresent := False\<rparr>)
            in s3\<lparr>loxmsec := 0\<rparr>)
         else s2)"

section \<open>Hue from distance\<close>

text \<open>
  The Arduino core's \<^verbatim>\<open>long map(long x, long in_min, long in_max, long out_min, long out_max)\<close>
  returns \<^verbatim>\<open>(x - in_min) * (out_max - out_min) / (in_max - in_min) + out_min\<close>, all in
  32-bit \<^verbatim>\<open>long\<close> arithmetic, where \<^verbatim>\<open>/\<close> is C's division, which truncates towards zero
  (\<open>sdiv\<close>). Every intermediate result is cut to 32 bits by \<open>long\<close>. The firmware only
  calls it with \<^verbatim>\<open>in_min < in_max\<close>, so the divisor is never 0.
\<close>

definition long :: "int \<Rightarrow> int" where
  "long k = signed_take_bit 31 k"

definition arduino_map :: "int \<Rightarrow> int \<Rightarrow> int \<Rightarrow> int \<Rightarrow> int \<Rightarrow> int" where
  "arduino_map x in_min in_max out_min out_max =
     long (long (long (long (x - in_min) * long (out_max - out_min)) sdiv long (in_max - in_min))
           + out_min)"

text \<open>
  \<^verbatim>\<open>do_colour_variation\<close>. The \<^verbatim>\<open>int\<close> \<^verbatim>\<open>rangeVal\<close> widens to \<^verbatim>\<open>long\<close> with its sign; the
  \<^verbatim>\<open>long\<close> result is stored in the \<^verbatim>\<open>uint8_t\<close> field \<^verbatim>\<open>hue\<close>, which keeps its low 8 bits.
\<close>

definition do_colour_variation :: "state \<Rightarrow> state" where
  "do_colour_variation s =
     (if isUserPresent s = True then
        (let s1 = s\<lparr>strip1Color := (strip1Color s)
                      \<lparr>hue := word_of_int (arduino_map (sint (rangeVal s)) 0 500 76 204)\<rparr>\<rparr>
         in s1\<lparr>strip2Color := (strip2Color s1)
                      \<lparr>hue := word_of_int (arduino_map (sint (rangeVal s1)) 0 500 76 204)\<rparr>\<rparr>)
      else
        (let s1 = s\<lparr>strip1Color := (strip1Color s)\<lparr>hue := hue cblue\<rparr>\<rparr>
         in s1\<lparr>strip2Color := (strip2Color s1)\<lparr>hue := hue cblue\<rparr>\<rparr>))"

section \<open>Translation of the readings\<close>

text \<open>
  Each of the six loops of \<^verbatim>\<open>register_readings\<close> runs over a whole dataset and stores
  \<^verbatim>\<open>int(map(D[i], lo, hi, 0, 255))\<close> at the same index: the \<^verbatim>\<open>int\<close> raw value widens to
  \<^verbatim>\<open>long\<close>, the result is narrowed to a 16-bit \<^verbatim>\<open>int\<close>. \<open>translate\<close> is that loop.
\<close>

definition translate :: "i16 list \<Rightarrow> int \<Rightarrow> int \<Rightarrow> i16 list" where
  "translate D in_min in_max =
     map (\<lambda>raw. word_of_int (arduino_map (sint raw) in_min in_max 0 255)) D"

definition register_readings :: "config \<Rightarrow> state \<Rightarrow> state" where
  "register_readings C s =
     (if SCULPTURE_ID C = 1 then
        s\<lparr>readings1 := translate CO2_1 0 1800, readings2 := translate CO2_2 0 1800\<rparr>
      else if SCULPTURE_ID C = 2 then
        s\<lparr>readings1 := translate PM25_1 0 125, readings2 := translate PM25_2 0 125\<rparr>
      else
        s\<lparr>readings1 := translate VOC_1 0 130, readings2 := translate VOC_2 0 130\<rparr>)"

section \<open>Play mode\<close>

definition set_playMode :: "state \<Rightarrow> state" where
  "set_playMode s =
     (let s1 =
        (if isButton0Pressed s = True then
           s\<lparr>isButton0Pressed := False,
             strip1playMode := BUTTON_MODE,
             strip1hasPlayModeChanged := True,
             strip1activeLedState := 0,
             strip1bandDelay := word_of_int (BAND_DELAY sdiv 4)\<rparr>
         else s)
      in if isButton1Pressed s1 = True then
           s1\<lparr>isButton1Pressed := False,
              strip2playMode := BUTTON_MODE,
              strip2hasPlayModeChanged := True,
              strip2activeLedState := 0,
              strip2bandDelay := word_of_int (BAND_DELAY sdiv 4)\<rparr>
         else s1)"

section \<open>LED strip support functions\<close>

text \<open>
  The loop \<^verbatim>\<open>for (int i = 0; i < n; i++) leds[i] = f(leds[i])\<close>, started at \<open>i\<close>. An index
  beyond the array is an error of the model.
\<close>

function for_leds :: "nat \<Rightarrow> nat \<Rightarrow> (crgb \<Rightarrow> crgb) \<Rightarrow> crgb list \<Rightarrow> error + crgb list" where
  "for_leds i n f leds =
     (if i < n then
        (if i < length leds then for_leds (Suc i) n f (leds[i := f (leds ! i)])
         else Inl LedsOutOfBounds)
      else Inr leds)"
  by pat_completeness auto
termination
  by (relation "measure (\<lambda>(i, n, f, leds). n - i)") auto

definition strip1_fade :: "fastled \<Rightarrow> config \<Rightarrow> state \<Rightarrow> error + state" where
  "strip1_fade L C s =
     and_then (for_leds 0 (BAND1 C) (\<lambda>p. fadeToBlackBy L p 8) (leds0 s))
       (\<lambda>l. Inr (s\<lparr>leds0 := l\<rparr>))"

definition strip2_fade :: "fastled \<Rightarrow> config \<Rightarrow> state \<Rightarrow> error + state" where
  "strip2_fade L C s =
     and_then (for_leds 0 (BAND2 C) (\<lambda>p. fadeToBlackBy L p 8) (leds1 s))
       (\<lambda>l. Inr (s\<lparr>leds1 := l\<rparr>))"

definition strip1_set_brightLevel :: "fastled \<Rightarrow> config \<Rightarrow> i16 \<Rightarrow> state \<Rightarrow> error + state" where
  "strip1_set_brightLevel L C brightlvl s =
     (let s1 = s\<lparr>strip1Color := (strip1Color s)\<lparr>val := ucast brightlvl\<rparr>\<rparr>
      in and_then (for_leds 0 (BAND1 C) (\<lambda>p. hsv2rgb L (strip1Color s1)) (leds0 s1))
           (\<lambda>l. Inr (s1\<lparr>leds0 := l\<rparr>)))"

definition strip2_set_brightLevel :: "fastled \<Rightarrow> config \<Rightarrow> i16 \<Rightarrow> state \<Rightarrow> error + state" where
  "strip2_set_brightLevel L C brightlvl s =
     (let s1 = s\<lparr>strip2Color := (strip2Color s)\<lparr>val := ucast brightlvl\<rparr>\<rparr>
      in and_then (for_leds 0 (BAND2 C) (\<lambda>p. hsv2rgb L (strip2Color s1)) (leds1 s1))
           (\<lambda>l. Inr (s1\<lparr>leds1 := l\<rparr>)))"

text \<open>
  \<^verbatim>\<open>leds0[0]\<close> and \<^verbatim>\<open>leds0[BAND1 - 1]\<close> are read in this order, the second only when the
  first pixel is dark (\<^verbatim>\<open>&&\<close>).
\<close>

definition strip1_has_fade :: "fastled \<Rightarrow> config \<Rightarrow> state \<Rightarrow> error + bool" where
  "strip1_has_fade L C s =
     (if 0 < length (leds0 s) then
        (if getAverageLight L (leds0 s ! 0) = 0 then
           (if 0 < BAND1 C \<and> BAND1 C - 1 < length (leds0 s) then
              Inr (getAverageLight L (leds0 s ! (BAND1 C - 1)) = 0)
            else Inl LedsOutOfBounds)
         else Inr False)
      else Inl LedsOutOfBounds)"

definition strip2_has_fade :: "fastled \<Rightarrow> config \<Rightarrow> state \<Rightarrow> error + bool" where
  "strip2_has_fade L C s =
     (if 0 < length (leds1 s) then
        (if getAverageLight L (leds1 s ! 0) = 0 then
           (if 0 < BAND2 C \<and> BAND2 C - 1 < length (leds1 s) then
              Inr (getAverageLight L (leds1 s ! (BAND2 C - 1)) = 0)
            else Inl LedsOutOfBounds)
         else Inr False)
      else Inl LedsOutOfBounds)"

section \<open>Idle animation\<close>

definition strip1_get_brightness :: "state \<Rightarrow> i16 \<Rightarrow> i16" where
  "strip1_get_brightness s brightness =
     (if \<not> strip1isMaxBrightness s then
        (let b1 = brightness + 1
         in if sint (strip1maxBrightLvl s) < sint b1 then strip1maxBrightLvl s else b1)
      else
        (let b1 = brightness - 1
         in if sint b1 < 0 then 0 else b1))"

definition strip2_get_brightness :: "state \<Rightarrow> i16 \<Rightarrow> i16" where
  "strip2_get_brightness s brightness =
     (if \<not> strip2isMaxBrightness s then
        (let b1 = brightness + 1
         in if sint (strip2maxBrightLvl s) < sint b1 then strip2maxBrightLvl s else b1)
      else
        (let b1 = brightness - 1
         in if sint b1 < 0 then 0 else b1))"

text \<open>
  \<^verbatim>\<open>strip1Color.val = strip1brightness = brightlevel\<close> stores the \<^verbatim>\<open>int\<close> in the brightness
  and its low 8 bits in the colour value. In the source the three loops of the CO2 branch of
  \<^verbatim>\<open>strip1_idle_animation\<close> are written without their increment
  (\<^verbatim>\<open>for (int i = 0; i < BAND1_1)\<close>); they are taken as the loops over all indices below the
  bound that every other loop of the file is.
\<close>

definition strip1_idle_animation :: "fastled \<Rightarrow> config \<Rightarrow> state \<Rightarrow> error + state" where
  "strip1_idle_animation L C s =
     (let brightlevel = strip1_get_brightness s (strip1brightness s);
          s1 = s\<lparr>strip1brightness := brightlevel,
                 strip1Color := (strip1Color s)\<lparr>val := ucast brightlevel\<rparr>\<rparr>;
          px = hsv2rgb L (strip1Color s1)
      in and_then
           (if SCULPTURE_ID C = 1 then
              and_then (for_leds 0 (BAND1_1 C) (\<lambda>p. px) (leds0 s1)) (\<lambda>l0.
              and_then (for_leds 0 (BAND1_2 C) (\<lambda>p. px) (leds1 s1)) (\<lambda>l1.
              and_then (for_leds 0 (BAND1_3 C) (\<lambda>p. px) (leds2 s1)) (\<lambda>l2.
              Inr (s1\<lparr>leds0 := l0, leds1 := l1, leds2 := l2\<rparr>))))
            else
              and_then (for_leds 0 (BAND1 C) (\<lambda>p. px) (leds0 s1)) (\<lambda>l0.
              Inr (s1\<lparr>leds0 := l0\<rparr>)))
           (\<lambda>s2. Inr (if brightlevel = strip1maxBrightLvl s2
                        then s2\<lparr>strip1isMaxBrightness := True\<rparr>
                      else if brightlevel = 0
                        then s2\<lparr>strip1isMaxBrightness := False\<rparr>
                      else s2)))"

definition strip2_idle_animation :: "fastled \<Rightarrow> config \<Rightarrow> state \<Rightarrow> error + state" where
  "strip2_idle_animation L C s =
     (let brightlevel = strip2_get_brightness s (strip2brightness s);
          s1 = s\<lparr>strip2brightness := brightlevel,
                 strip2Color := (strip2Color s)\<lparr>val := ucast brightlevel\<rparr>\<rparr>
      in and_then
           (if SCULPTURE_ID C = 1 then
              and_then (for_leds 0 (BAND2 C) (\<lambda>p. hsv2rgb L (strip1Color s1)) (leds3 s1)) (\<lambda>l3.
              Inr (s1\<lparr>leds3 := l3\<rparr>))
            else
              and_then (for_leds 0 (BAND2 C) (\<lambda>p. hsv2rgb L (strip2Color s1)) (leds1 s1)) (\<lambda>l1.
              Inr (s1\<lparr>leds1 := l1\<rparr>)))
           (\<lambda>s2. Inr (if brightlevel = strip2maxBrightLvl s2
                        then s2\<lparr>strip2isMaxBrightness := True\<rparr>
                      else if brightlevel = 0
                        then s2\<lparr>strip2isMaxBrightness := False\<rparr>
                      else s2)))"

section \<open>Return to idle mode\<close>

definition strip1_go_idle :: "state \<Rightarrow> state" where
  "strip1_go_idle s =
     s\<lparr>strip1activeLedState := 0,
       strip1playMode := IDLE_MODE,
       strip1hasPlayModeChanged := True,
       strip1bandDelay := word_of_int BAND_DELAY,
       strip1maxBrightLvl := 255,
       strip1isMaxBrightness := False,
       strip1brightness := 0,
       strip1bandms := 0\<rparr>"

definition strip2_go_idle :: "state \<Rightarrow> state" where
  "strip2_go_idle s =
     s\<lparr>strip2activeLedState := 0,
       strip2playMode := IDLE_MODE,
       strip2hasPlayModeChanged := True,
       strip2bandDelay := word_of_int BAND_DELAY,
       strip2maxBrightLvl := 255,
       strip2isMaxBrightness := False,
       strip2brightness := 0,
       strip2bandms := 0\<rparr>"

section \<open>Playback of the readings\<close>

text \<open>
  In state 1 the comparisons are between \<^verbatim>\<open>unsigned int\<close> values: the \<^verbatim>\<open>uint8_t\<close> field
  \<^verbatim>\<open>strip1Color.val\<close> is widened to 16 bits (\<open>ucast\<close>); \<^verbatim>\<open>+= 10\<close> and \<^verbatim>\<open>-= 10\<close> act on the
  8-bit field. The 16-bit \<^verbatim>\<open>int\<close> taken from \<^verbatim>\<open>readings1\<close> goes into the \<^verbatim>\<open>unsigned int\<close>
  \<^verbatim>\<open>strip1currBrightVal\<close> with its bits unchanged. A read of \<^verbatim>\<open>readings1\<close> beyond its last
  element is an error of the model. \<^verbatim>\<open>numElements\<close> is the declared length of the array.
\<close>

definition strip1_playback_readings :: "fastled \<Rightarrow> config \<Rightarrow> state \<Rightarrow> error + state" where
  "strip1_playback_readings L C s =
     (if strip1activeLedState s = 0 then
        and_then (strip1_fade L C s) (\<lambda>s1.
        and_then (strip1_has_fade L C s1) (\<lambda>faded.
        Inr (if faded = True then
               s1\<lparr>strip1activeLedState := 1,
                  strip1bandms := 0,
                  strip1readingsCounter := 0,
                  strip1prevBrightVal := 0,
                  strip1currBrightVal := 0,
                  strip1Color := (strip1Color s1)\<lparr>val := 0\<rparr>\<rparr>
             else s1)))
      else if strip1activeLedState s = 1 then
        (if int (strip1bandms s) < BAND_DELAY * 2 then
           (if unat (strip1readingsCounter s) < length (readings1 s) then
              (let s1 = s\<lparr>strip1currBrightVal := readings1 s ! unat (strip1readingsCounter s)\<rparr>;
                   s2 =
                     (if strip1prevBrightVal s1 < strip1currBrightVal s1 then
                        (if ucast (val (strip1Color s1)) < strip1currBrightVal s1 then
                           s1\<lparr>strip1Color := (strip1Color s1)\<lparr>val := val (strip1Color s1) + 10\<rparr>\<rparr>
                         else s1)
                      else
                        (if strip1currBrightVal s1 < ucast (val (strip1Color s1)) then
                           s1\<lparr>strip1Color := (strip1Color s1)\<lparr>val := val (strip1Color s1) - 10\<rparr>\<rparr>
                         else s1))
               in strip1_set_brightLevel L C (ucast (val (strip1Color s2))) s2)
            else Inl ReadingsOutOfBounds)
         else
           (let s1 = s\<lparr>strip1prevBrightVal := strip1currBrightVal s,
                        strip1readingsCounter := strip1readingsCounter s + 1,
                        strip1bandms := 0\<rparr>;
                numElements = (word_of_nat (length (readings1 s1)) :: u16)
            in Inr (if strip1readingsCounter s1 = numElements
                    then s1\<lparr>strip1activeLedState := 2\<rparr>
                    else s1)))
      else if strip1activeLedState s = 2 then
        and_then (strip1_fade L C s) (\<lambda>s1.
        and_then (strip1_has_fade L C s1) (\<lambda>faded.
        Inr (if faded then strip1_go_idle s1 else s1)))
      else Inr s)"

definition strip2_playback_readings :: "fastled \<Rightarrow> config \<Rightarrow> state \<Rightarrow> error + state" where
  "strip2_playback_readings L C s =
     (if strip2activeLedState s = 0 then
        and_then (strip2_fade L C s) (\<lambda>s1.
        and_then (strip2_has_fade L C s1) (\<lambda>faded.
        Inr (if faded = True then
               s1\<lparr>strip2activeLedState := 1,
                  strip2bandms := 0,
                  strip2readingsCounter := 0,
                  strip2prevBrightVal := 0,
                  strip2currBrightVal := 0,
                  strip2Color := (strip2Color s1)\<lparr>val := 0\<rparr>\<rparr>
             else s1)))
      else if strip2activeLedState s = 1 then
        (if int (strip2bandms s) < BAND_DELAY * 2 then
           (if unat (strip2readingsCounter s) < length (readings2 s) then
              (let s1 = s\<lparr>strip2currBrightVal := readings2 s ! unat (strip2readingsCounter s)\<rparr>;
                   s2 =
                     (if strip2prevBrightVal s1 < strip2currBrightVal s1 then
                        (if ucast (val (strip2Color s1)) < strip2currBrightVal s1 then
                           s1\<lparr>strip2Color := (strip2Color s1)\<lparr>val := val (strip2Color s1) + 10\<rparr>\<rparr>
                         else s1)
                      else
                        (if strip2currBrightVal s1 < ucast (val (strip2Color s1)) then
                           s1\<lparr>strip2Color := (strip2Color s1)\<lparr>val := val (strip2Color s1) - 10\<rparr>\<rparr>
                         else s1))
               in strip2_set_brightLevel L C (ucast (val (strip2Color s2))) s2)
            else Inl ReadingsOutOfBounds)
         else
           (let s1 = s\<lparr>strip2prevBrightVal := strip2currBrightVal s,
                        strip2readingsCounter := strip2readingsCounter s + 1,
                        strip2bandms := 0\<rparr>;
                numElements = (word_of_nat (length (readings2 s1)) :: u16)
            in Inr (if strip2readingsCounter s1 = numElements
                    then s1\<lparr>strip2activeLedState := 2\<rparr>
                    else s1)))
      else if strip2activeLedState s = 2 then
        and_then (strip2_fade L C s) (\<lambda>s1.
        and_then (strip2_has_fade L C s1) (\<lambda>faded.
        Inr (if faded then strip2_go_idle s1 else s1)))
      else Inr s)"

section \<open>The frame loop\<close>

text \<open>
  Modelled from the spec: \<^verbatim>\<open>add_glitter\<close> is called by \<^verbatim>\<open>loop()\<close> and defined in no source
  file. The spec describes it as a cosmetic pass that layers random sparkle pixels on the
  final buffers; here each entry \<open>(a, i, p)\<close> of the frame's glitter list overwrites pixel
  \<open>i\<close> of LED array number \<open>a\<close> with \<open>p\<close>, and nothing else changes.
\<close>

fun add_glitter :: "(nat \<times> nat \<times> crgb) list \<Rightarrow> state \<Rightarrow> state" where
  "add_glitter [] s = s"
| "add_glitter ((a, i, p) # gs) s =
     add_glitter gs
       (if a = 0 then s\<lparr>leds0 := (leds0 s)[i := p]\<rparr>
        else if a = 1 then s\<lparr>leds1 := (leds1 s)[i := p]\<rparr>
        else if a = 2 then s\<lparr>leds2 := (leds2 s)[i := p]\<rparr>
        else if a = 3 then s\<lparr>leds3 := (leds3 s)[i := p]\<rparr>
        else s)"

text \<open>The three \<^verbatim>\<open>elapsedMillis\<close> counters advance with the clock.\<close>

definition pass_time :: "nat \<Rightarrow> state \<Rightarrow> state" where
  "pass_time ms s =
     s\<lparr>loxmsec := loxmsec s + ms,
       strip1bandms := strip1bandms s + ms,
       strip2bandms := strip2bandms s + ms\<rparr>"

text \<open>
  One pass of \<^verbatim>\<open>loop()\<close>; the time that \<^verbatim>\<open>FastLED.show()\<close> and \<^verbatim>\<open>FastLED.delay\<close> take, and
  the rest of the pass with it, is added to the counters at the end.
\<close>

definition loop :: "fastled \<Rightarrow> config \<Rightarrow> frame_input \<Rightarrow> state \<Rightarrow> error + state" where
  "loop L C inp s =
     (let s1 = set_playMode (do_colour_variation (read_console inp s))
      in and_then
           (if strip1playMode s1 = IDLE_MODE then strip1_idle_animation L C s1
            else if strip1playMode s1 = BUTTON_MODE then strip1_playback_readings L C s1
            else Inr s1) (\<lambda>s2.
         and_then
           (if strip2playMode s2 = IDLE_MODE then strip2_idle_animation L C s2
            else if strip2playMode s2 = BUTTON_MODE then strip2_playback_readings L C s2
            else Inr s2) (\<lambda>s3.
         Inr (pass_time (elapsed inp) (add_glitter (glitter inp) s3)))))"

text \<open>
  The globals as their initialisers in \<^verbatim>\<open>main.cpp\<close> leave them (globals without an
  initialiser are zero), with the array sizes that the selected sculpture declares, and
  \<^verbatim>\<open>setup()\<close>, which ends with \<^verbatim>\<open>register_readings\<close>; \<open>boot_ms\<close> is the time \<^verbatim>\<open>setup()\<close> took.
\<close>

definition initial_state :: "config \<Rightarrow> state" where
  "initial_state C =
     \<lparr>isButton0Pressed = False,
      isButton1Pressed = False,
      rangeVal = 0,
      loxmsec = 0,
      isUserPresent = False,
      strip1Color = cblue,
      strip2Color = cblue,
      readings1 = replicate (if SCULPTURE_ID C = 1 then 17 else if SCULPTURE_ID C = 2 then 20 else 26) 0,
      readings2 = replicate (if SCULPTURE_ID C = 1 then 40 else if SCULPTURE_ID C = 2 then 32 else 22) 0,
      leds0 = replicate (if SCULPTURE_ID C = 1 then CO2band1_1
                         else if SCULPTURE_ID C = 2 then PM25band1 else VOCband1)
                \<lparr>red = 0, green = 0, blue = 0\<rparr>,
      leds1 = replicate (if SCULPTURE_ID C = 1 then CO2band1_2
                         else if SCULPTURE_ID C = 2 then PM25band2 else VOCband2)
                \<lparr>red = 0, green = 0, blue = 0\<rparr>,
      leds2 = replicate (if SCULPTURE_ID C = 1 then CO2band1_3 else 0)
                \<lparr>red = 0, green = 0, blue = 0\<rparr>,
      leds3 = replicate (if SCULPTURE_ID C = 1 then CO2band2 else 0)
                \<lparr>red = 0, green = 0, blue = 0\<rparr>,
      strip1playMode = IDLE_MODE,
      strip2playMode = IDLE_MODE,
      strip1brightness = 0,
      strip2brightness = 0,
      strip1maxBrightLvl = 255,
      strip2maxBrightLvl = 255,
      strip1hasPlayModeChanged = False,
      strip2hasPlayModeChanged = False,
      strip1activeLedState = 0,
      strip2activeLedState = 0,
      strip1isMaxBrightness = False,
      strip2isMaxBrightness = False,
      strip1bandms = 0,
      strip2bandms = 0,
      strip1bandDelay = word_of_int BAND_DELAY,
      strip2bandDelay = word_of_int BAND_DELAY,
      strip1readingsCounter = 0,
      strip2readingsCounter = 0,
      strip1prevBrightVal = 0,
      strip1currBrightVal = 0,
      strip2prevBrightVal = 0,
      strip2currBrightVal = 0\<rparr>"

definition arduino_setup :: "config \<Rightarrow> nat \<Rightarrow> state" where
  "arduino_setup C boot_ms = register_readings C (pass_time boot_ms (initial_state C))"

text \<open>The states the firmware can be in at the start of a pass of \<^verbatim>\<open>loop()\<close>.\<close>

inductive reachable :: "fastled \<Rightarrow> config \<Rightarrow> state \<Rightarrow> bool" for L :: fastled and C :: config where
  reachable_setup: "reachable L C (arduino_setup C boot_ms)"
| reachable_loop: "reachable L C s \<Longrightarrow> loop L C inp s = Inr s' \<Longrightarrow> reachable L C s'"

section \<open>Concrete builds used for evaluation\<close>

text \<open>
  The build that \<^verbatim>\<open>main.cpp\<close> selects (\<^verbatim>\<open>#define __PM25__\<close>) and the CO2 build, with the band
  macros set to the pixel counts that \<^verbatim>\<open>main.cpp\<close> gives the corresponding strips.
\<close>

definition pm25_build :: config where
  "pm25_build = \<lparr>SCULPTURE_ID = 2, BAND1 = PM25band1, BAND2 = PM25band2,
                  BAND1_1 = 0, BAND1_2 = 0, BAND1_3 = 0\<rparr>"

definition co2_build :: config where
  "co2_build = \<lparr>SCULPTURE_ID = 1, BAND1 = CO2band1_1, BAND2 = CO2band2,
                 BAND1_1 = CO2band1_1, BAND1_2 = CO2band1_2, BAND1_3 = CO2band1_3\<rparr>"

text \<open>
  A simple instance of the pixel operations, used only where a statement is evaluated on a
  concrete state: a grey pixel of the colour's value, a fade that scales each channel by
  \<open>(256 - amount) / 256\<close>, and the mean of the three channels. The general theorems hold for
  every instance.
\<close>

definition grey_fastled :: fastled where
  "grey_fastled =
     \<lparr>hsv2rgb = (\<lambda>c. \<lparr>red = val c, green = val c, blue = val c\<rparr>),
      fadeToBlackBy = (\<lambda>p amount.
        \<lparr>red = word_of_nat (unat (red p) * (256 - unat amount) div 256),
         green = word_of_nat (unat (green p) * (256 - unat amount) div 256),
         blue = word_of_nat (unat (blue p) * (256 - unat amount) div 256)\<rparr>),
      getAverageLight = (\<lambda>p. word_of_nat ((unat (red p) + unat (green p) + unat (blue p)) div 3))\<rparr>"

text \<open>
  The PM2.5 build after \<^verbatim>\<open>setup()\<close> with both strips in the interpolating phase
  (\<^verbatim>\<open>activeLedState = 1\<close>): the cursor, the previous target, the current colour value and the
  phase timer are the arguments.
\<close>

definition pm25_playing :: "nat \<Rightarrow> u16 \<Rightarrow> u8 \<Rightarrow> nat \<Rightarrow> state" where
  "pm25_playing cursor previous v ms =
     (arduino_setup pm25_build 2010)
       \<lparr>strip1playMode := BUTTON_MODE,
        strip2playMode := BUTTON_MODE,
        strip1activeLedState := 1,
        strip2activeLedState := 1,
        strip1bandms := ms,
        strip2bandms := ms,
        strip1readingsCounter := word_of_nat cursor,
        strip2readingsCounter := word_of_nat cursor,
        strip1prevBrightVal := previous,
        strip1currBrightVal := previous,
        strip2prevBrightVal := previous,
        strip2currBrightVal := previous,
        strip1Color := cblue\<lparr>val := v\<rparr>,
        strip2Color := cblue\<lparr>val := v\<rparr>\<rparr>"

text \<open>
  The PM2.5 build after \<^verbatim>\<open>setup()\<close>, both strips idle, with a given idle brightness and
  direction flag.
\<close>

definition pm25_idling :: "i16 \<Rightarrow> bool \<Rightarrow> state" where
  "pm25_idling brightness descending =
     (arduino_setup pm25_build 2010)
       \<lparr>strip1brightness := brightness, strip2brightness := brightness,
        strip1isMaxBrightness := descending, strip2isMaxBrightness := descending\<rparr>"

section \<open>Repeated frames and array bounds\<close>

text \<open>\<open>n\<close> calls of a frame function in a row, stopping at the first error.\<close>

fun repeat_step :: "nat \<Rightarrow> (state \<Rightarrow> error + state) \<Rightarrow> state \<Rightarrow> error + state" where
  "repeat_step 0 f s = Inr s"
| "repeat_step (Suc n) f s = and_then (f s) (repeat_step n f)"

text \<open>
  The pixel loops of the idle animations stay inside the arrays they write: the condition
  under which \<^verbatim>\<open>strip1_idle_animation\<close> and \<^verbatim>\<open>strip2_idle_animation\<close> return a state.
\<close>

definition strip1_idle_in_bounds :: "config \<Rightarrow> state \<Rightarrow> bool" where
  "strip1_idle_in_bounds C s \<longleftrightarrow>
     (if SCULPTURE_ID C = 1
      then BAND1_1 C \<le> length (leds0 s) \<and> BAND1_2 C \<le> length (leds1 s) \<and>
           BAND1_3 C \<le> length (leds2 s)
      else BAND1 C \<le> length (leds0 s))"

definition strip2_idle_in_bounds :: "config \<Rightarrow> state \<Rightarrow> bool" where
  "strip2_idle_in_bounds C s \<longleftrightarrow>
     (if SCULPTURE_ID C = 1 then BAND2 C \<le> length (leds3 s) else BAND2 C \<le> length (leds1 s))"

text \<open>A frame of the PM2.5 build in which both buttons report a press.\<close>

definition pm25_press :: frame_input where
  "pm25_press =
     \<lparr>button0_fallingEdge = True, button1_fallingEdge = True,
      ranging = \<lparr>RangeStatus = 0, RangeMilliMeter = 300\<rparr>, glitter = [], elapsed = 10\<rparr>"

section \<open>Cursor inside the brightness sequence\<close>

text \<open>
  The sequence of a strip is not empty, and while the strip is in the interpolating phase
  (\<^verbatim>\<open>activeLedState = 1\<close>) its cursor is an index of the sequence.
\<close>

definition strip1_cursor_ok :: "state \<Rightarrow> bool" where
  "strip1_cursor_ok s \<longleftrightarrow>
     0 < length (readings1 s) \<and>
     (strip1activeLedState s = 1 \<longrightarrow> unat (strip1readingsCounter s) < length (readings1 s))"

definition strip2_cursor_ok :: "state \<Rightarrow> bool" where
  "strip2_cursor_ok s \<longleftrightarrow>
     0 < length (readings2 s) \<and>
     (strip2activeLedState s = 1 \<longrightarrow> unat (strip2readingsCounter s) < length (readings2 s))"

text \<open>
  The states of the idle ping-pong: maximum level 255, brightness between 0 and 255, the
  direction flag clear only below 255 and set only above 0.
\<close>

definition strip1_pingpong_ok :: "state \<Rightarrow> bool" where
  "strip1_pingpong_ok s \<longleftrightarrow>
     strip1maxBrightLvl s = 255 \<and>
     0 \<le> sint (strip1brightness s) \<and> sint (strip1brightness s) \<le> 255 \<and>
     (strip1isMaxBrightness s \<longrightarrow> 0 < sint (strip1brightness s)) \<and>
     (\<not> strip1isMaxBrightness s \<longrightarrow> sint (strip1brightness s) < 255)"

definition strip2_pingpong_ok :: "state \<Rightarrow> bool" where
  "strip2_pingpong_ok s \<longleftrightarrow>
     strip2maxBrightLvl s = 255 \<and>
     0 \<le> sint (strip2brightness s) \<and> sint (strip2brightness s) \<le> 255 \<and>
     (strip2isMaxBrightness s \<longrightarrow> 0 < sint (strip2brightness s)) \<and>
     (\<not> strip2isMaxBrightness s \<longrightarrow> sint (strip2brightness s) < 255)"

section \<open>The translation as the specification words it\<close>

text \<open>
  The specification's formula for the reading translator,
  \<^verbatim>\<open>brightness = round((raw - domainMin) * 255 / (domainMax - domainMin))\<close>, over the reals,
  to be compared with \<open>translate\<close>.
\<close>

definition spec_translate :: "int \<Rightarrow> int \<Rightarrow> int \<Rightarrow> int" where
  "spec_translate raw domainMin domainMax =
     round (real_of_int ((raw - domainMin) * 255) / real_of_int (domainMax - domainMin))"

section \<open>Consuming the activate flag\<close>

lemma and_then_Inr [simp]: "and_then (Inr x) f = f x"
  by (simp add: and_then_def)

lemma and_then_Inl [simp]: "and_then (Inl e) f = Inl e"
  by (simp add: and_then_def)

text \<open>
  Claim C8. In every state, whatever the play mode and the playback phase, a pending
  activate flag makes \<^verbatim>\<open>set_playMode\<close> put the strip in \<^verbatim>\<open>BUTTON_MODE\<close> with
  \<^verbatim>\<open>activeLedState = 0\<close> (the fade-to-black phase), raise the mode-change flag, set the fade
  delay to \<^verbatim>\<open>BAND_DELAY / 4 = 125\<close> and clear the activate flag; so a press during a running
  playback restarts it from the fade-to-black phase. This holds for both strips.
\<close>

theorem set_playMode_restarts_playback:
  "(isButton0Pressed s \<longrightarrow>
      strip1playMode (set_playMode s) = BUTTON_MODE \<and>
      strip1activeLedState (set_playMode s) = 0 \<and>
      strip1hasPlayModeChanged (set_playMode s) \<and>
      strip1bandDelay (set_playMode s) = word_of_int (BAND_DELAY sdiv 4) \<and>
      strip1bandDelay (set_playMode s) = 125 \<and>
      \<not> isButton0Pressed (set_playMode s)) \<and>
   (isButton1Pressed s \<longrightarrow>
      strip2playMode (set_playMode s) = BUTTON_MODE \<and>
      strip2activeLedState (set_playMode s) = 0 \<and>
      strip2hasPlayModeChanged (set_playMode s) \<and>
      strip2bandDelay (set_playMode s) = word_of_int (BAND_DELAY sdiv 4) \<and>
      strip2bandDelay (set_playMode s) = 125 \<and>
      \<not> isButton1Pressed (set_playMode s))"
  by (simp add: set_playMode_def BAND_DELAY_def signed_divide_int_def Let_def)

text \<open>
  Both flags pending while strip 1 is in the interpolating phase and strip 2 is fading back
  to idle: both strips restart at phase 0.
\<close>

theorem set_playMode_restarts_playback_witness:
  "isButton0Pressed ((initial_state pm25_build)
      \<lparr>isButton0Pressed := True, isButton1Pressed := True,
        strip1playMode := BUTTON_MODE, strip2playMode := BUTTON_MODE,
        strip1activeLedState := 1, strip2activeLedState := 2\<rparr>) \<and>
   isButton1Pressed ((initial_state pm25_build)
      \<lparr>isButton0Pressed := True, isButton1Pressed := True,
        strip1playMode := BUTTON_MODE, strip2playMode := BUTTON_MODE,
        strip1activeLedState := 1, strip2activeLedState := 2\<rparr>) \<and>
   strip1activeLedState (set_playMode ((initial_state pm25_build)
      \<lparr>isButton0Pressed := True, isButton1Pressed := True,
        strip1playMode := BUTTON_MODE, strip2playMode := BUTTON_MODE,
        strip1activeLedState := 1, strip2activeLedState := 2\<rparr>)) = 0 \<and>
   strip2activeLedState (set_playMode ((initial_state pm25_build)
      \<lparr>isButton0Pressed := True, isButton1Pressed := True,
        strip1playMode := BUTTON_MODE, strip2playMode := BUTTON_MODE,
        strip1activeLedState := 1, strip2activeLedState := 2\<rparr>)) = 0 \<and>
   strip1bandDelay (set_playMode ((initial_state pm25_build)
      \<lparr>isButton0Pressed := True, isButton1Pressed := True,
        strip1playMode := BUTTON_MODE, strip2playMode := BUTTON_MODE,
        strip1activeLedState := 1, strip2activeLedState := 2\<rparr>)) = 125"
  using set_playMode_restarts_playback [of "(initial_state pm25_build)
      \<lparr>isButton0Pressed := True, isButton1Pressed := True,
        strip1playMode := BUTTON_MODE, strip2playMode := BUTTON_MODE,
        strip1activeLedState := 1, strip2activeLedState := 2\<rparr>"]
  by (simp add: BAND_DELAY_def signed_divide_int_def)

text \<open>
  Claim C2, as amended. When \<^verbatim>\<open>set_playMode\<close> consumes a strip's activate flag, it leaves
  the brightness-max (direction) flag as it is (it does not reset it), leaves the idle
  brightness, the colour record and the pixels untouched (nothing is forced to 0), and sets
  the strip's fade delay to \<^verbatim>\<open>BAND_DELAY / 4\<close>.
\<close>

theorem set_playMode_keeps_brightness_state:
  "(isButton0Pressed s \<longrightarrow>
      strip1isMaxBrightness (set_playMode s) = strip1isMaxBrightness s \<and>
      strip1brightness (set_playMode s) = strip1brightness s \<and>
      strip1Color (set_playMode s) = strip1Color s \<and>
      leds0 (set_playMode s) = leds0 s \<and>
      strip1bandDelay (set_playMode s) = word_of_int (BAND_DELAY sdiv 4)) \<and>
   (isButton1Pressed s \<longrightarrow>
      strip2isMaxBrightness (set_playMode s) = strip2isMaxBrightness s \<and>
      strip2brightness (set_playMode s) = strip2brightness s \<and>
      strip2Color (set_playMode s) = strip2Color s \<and>
      leds1 (set_playMode s) = leds1 s \<and>
      strip2bandDelay (set_playMode s) = word_of_int (BAND_DELAY sdiv 4))"
  by (simp add: set_playMode_def Let_def)

theorem set_playMode_keeps_brightness_state_witness:
  "isButton0Pressed ((initial_state pm25_build)
      \<lparr>isButton0Pressed := True, isButton1Pressed := True, strip1brightness := 200, strip1isMaxBrightness := True\<rparr>) \<and>
   isButton1Pressed ((initial_state pm25_build)
      \<lparr>isButton0Pressed := True, isButton1Pressed := True, strip1brightness := 200, strip1isMaxBrightness := True\<rparr>) \<and>
   strip1isMaxBrightness (set_playMode ((initial_state pm25_build)
      \<lparr>isButton0Pressed := True, isButton1Pressed := True, strip1brightness := 200, strip1isMaxBrightness := True\<rparr>)) \<and>
   strip1brightness (set_playMode ((initial_state pm25_build)
      \<lparr>isButton0Pressed := True, isButton1Pressed := True, strip1brightness := 200, strip1isMaxBrightness := True\<rparr>)) = 200 \<and>
   strip2bandDelay (set_playMode ((initial_state pm25_build)
      \<lparr>isButton0Pressed := True, isButton1Pressed := True, strip1brightness := 200, strip1isMaxBrightness := True\<rparr>)) = 125"
  using set_playMode_keeps_brightness_state [of "(initial_state pm25_build)
      \<lparr>isButton0Pressed := True, isButton1Pressed := True, strip1brightness := 200, strip1isMaxBrightness := True\<rparr>"]
  by (simp add: BAND_DELAY_def signed_divide_int_def)

text \<open>
  The claim as stated fails: a strip idling at brightness 200 on the way down has the
  direction flag set, and the flag is still set after the activate flag has been consumed.
\<close>

theorem set_playMode_flag_reset_counterexample:
  "isButton0Pressed ((initial_state pm25_build)
      \<lparr>isButton0Pressed := True, strip1brightness := 200, strip1isMaxBrightness := True\<rparr>) \<and>
   strip1playMode ((initial_state pm25_build)
      \<lparr>isButton0Pressed := True, strip1brightness := 200, strip1isMaxBrightness := True\<rparr>) = IDLE_MODE \<and>
   strip1playMode (set_playMode ((initial_state pm25_build)
      \<lparr>isButton0Pressed := True, strip1brightness := 200, strip1isMaxBrightness := True\<rparr>)) = BUTTON_MODE \<and>
   strip1isMaxBrightness (set_playMode ((initial_state pm25_build)
      \<lparr>isButton0Pressed := True, strip1brightness := 200, strip1isMaxBrightness := True\<rparr>)) \<noteq> False"
  by (simp add: set_playMode_def initial_state_def)

section \<open>Presence\<close>

lemma sint_of_small: "unat (w :: 16 word) < 32768 \<Longrightarrow> sint w = int (unat w)"
proof -
  assume a: "unat w < 32768"
  have "sint w = signed_take_bit 15 (uint w)" by (simp add: sint_uint)
  also have "\<dots> = uint w"
  proof (rule signed_take_bit_int_eq_self)
    have "(2::int) ^ 15 = 32768" by simp
    then show "- (2 ^ 15) \<le> uint w" using uint_ge_0 [of w] by linarith
    have "int (unat w) < 32768" using a by linarith
    then show "uint w < 2 ^ 15" by (simp only: uint_nat) simp
  qed
  finally show ?thesis by (simp only: uint_nat)
qed

text \<open>
  What a pass that polls the sensor (more than 100 ms since the last poll) does with the
  measurement: \<^verbatim>\<open>isUserPresent\<close> is set to true exactly when the ranging status is not the
  phase-failure code 4 and the reading, as the 16-bit \<^verbatim>\<open>int\<close> \<^verbatim>\<open>rangeVal\<close> holds it, is at
  most 1000. For a reading below 32768 mm that is the reading itself. On status 4 the result
  is not-present, \<^verbatim>\<open>rangeVal\<close> keeps its old value, and nothing is raised: \<open>read_console\<close>
  is a total function.
\<close>

lemma read_console_polls:
  assumes "100 < loxmsec s"
  shows "(isUserPresent (read_console inp s) \<longleftrightarrow>
            RangeStatus (ranging inp) \<noteq> 4 \<and> sint (RangeMilliMeter (ranging inp)) \<le> 1000) \<and>
         (unat (RangeMilliMeter (ranging inp)) < 32768 \<longrightarrow>
            (isUserPresent (read_console inp s) \<longleftrightarrow>
               RangeStatus (ranging inp) \<noteq> 4 \<and> unat (RangeMilliMeter (ranging inp)) \<le> 1000)) \<and>
         (RangeStatus (ranging inp) = 4 \<longrightarrow>
            \<not> isUserPresent (read_console inp s) \<and> rangeVal (read_console inp s) = rangeVal s)"
proof -
  have p: "isUserPresent (read_console inp s) \<longleftrightarrow>
            RangeStatus (ranging inp) \<noteq> 4 \<and> sint (RangeMilliMeter (ranging inp)) \<le> 1000"
    using assms by (simp add: read_console_def Let_def)
  have r: "RangeStatus (ranging inp) = 4 \<Longrightarrow> rangeVal (read_console inp s) = rangeVal s"
    using assms by (simp add: read_console_def Let_def)
  have u: "sint (RangeMilliMeter (ranging inp)) \<le> 1000 \<longleftrightarrow>
             unat (RangeMilliMeter (ranging inp)) \<le> 1000"
    if "unat (RangeMilliMeter (ranging inp)) < 32768"
    by (simp only: sint_of_small [OF that]) linarith
  show ?thesis
    using p r u by blast
qed

text \<open>999 mm with a valid status, 1001 mm with a valid status, 999 mm with status 4.\<close>

lemma read_console_examples:
  "100 < loxmsec ((initial_state pm25_build)\<lparr>loxmsec := 101\<rparr>) \<and>
   isUserPresent (read_console
      \<lparr>button0_fallingEdge = False, button1_fallingEdge = False,
        ranging = \<lparr>RangeStatus = 0, RangeMilliMeter = 999\<rparr>, glitter = [], elapsed = 10\<rparr>
      ((initial_state pm25_build)\<lparr>loxmsec := 101\<rparr>)) \<and>
   \<not> isUserPresent (read_console
      \<lparr>button0_fallingEdge = False, button1_fallingEdge = False,
        ranging = \<lparr>RangeStatus = 0, RangeMilliMeter = 1001\<rparr>, glitter = [], elapsed = 10\<rparr>
      ((initial_state pm25_build)\<lparr>loxmsec := 101\<rparr>)) \<and>
   \<not> isUserPresent (read_console
      \<lparr>button0_fallingEdge = False, button1_fallingEdge = False,
        ranging = \<lparr>RangeStatus = 4, RangeMilliMeter = 999\<rparr>, glitter = [], elapsed = 10\<rparr>
      ((initial_state pm25_build)\<lparr>loxmsec := 101, isUserPresent := True\<rparr>))"
  using read_console_polls [of "(initial_state pm25_build)\<lparr>loxmsec := 101\<rparr>"
      "\<lparr>button0_fallingEdge = False, button1_fallingEdge = False,
        ranging = \<lparr>RangeStatus = 0, RangeMilliMeter = 999\<rparr>, glitter = [], elapsed = 10\<rparr>"]
    read_console_polls [of "(initial_state pm25_build)\<lparr>loxmsec := 101\<rparr>"
      "\<lparr>button0_fallingEdge = False, button1_fallingEdge = False,
        ranging = \<lparr>RangeStatus = 0, RangeMilliMeter = 1001\<rparr>, glitter = [], elapsed = 10\<rparr>"]
    read_console_polls [of "(initial_state pm25_build)\<lparr>loxmsec := 101, isUserPresent := True\<rparr>"
      "\<lparr>button0_fallingEdge = False, button1_fallingEdge = False,
        ranging = \<lparr>RangeStatus = 4, RangeMilliMeter = 999\<rparr>, glitter = [], elapsed = 10\<rparr>"]
  by simp

text \<open>
  Claim C6. The claim says that a poll sets the presence signal exactly when the returned
  distance is at most 1000 mm and the status is valid. The code departs from it for a valid
  reading of 32768 mm or more: the \<^verbatim>\<open>uint16_t\<close> reading is stored in the 16-bit \<^verbatim>\<open>int\<close>
  \<^verbatim>\<open>rangeVal\<close>, becomes negative there, and fails the test \<^verbatim>\<open>rangeVal > 1000\<close>. A valid
  reading of 40000 mm leaves \<^verbatim>\<open>rangeVal\<close> at -25536 and sets \<^verbatim>\<open>isUserPresent\<close>.
\<close>

theorem read_console_far_reading_present:
  "100 < loxmsec ((initial_state pm25_build)\<lparr>loxmsec := 101\<rparr>) \<and>
   unat (RangeMilliMeter \<lparr>RangeStatus = 0, RangeMilliMeter = 40000\<rparr>) = 40000 \<and>
   RangeStatus \<lparr>RangeStatus = 0, RangeMilliMeter = 40000\<rparr> \<noteq> 4 \<and>
   sint (rangeVal (read_console
      \<lparr>button0_fallingEdge = False, button1_fallingEdge = False,
        ranging = \<lparr>RangeStatus = 0, RangeMilliMeter = 40000\<rparr>, glitter = [], elapsed = 10\<rparr>
      ((initial_state pm25_build)\<lparr>loxmsec := 101\<rparr>))) = - 25536 \<and>
   isUserPresent (read_console
      \<lparr>button0_fallingEdge = False, button1_fallingEdge = False,
        ranging = \<lparr>RangeStatus = 0, RangeMilliMeter = 40000\<rparr>, glitter = [], elapsed = 10\<rparr>
      ((initial_state pm25_build)\<lparr>loxmsec := 101\<rparr>))"
  by (simp add: read_console_def initial_state_def Let_def)

section \<open>Arithmetic of \<^verbatim>\<open>map\<close>\<close>

lemma long_id: "- 2147483648 \<le> k \<Longrightarrow> k < 2147483648 \<Longrightarrow> long k = k"
  by (simp add: long_def signed_take_bit_int_eq_self)

lemma sdiv_pos: "0 < l \<Longrightarrow> k sdiv l = (if 0 \<le> k then k div l else - ((- k) div l))" for k l :: int
  by (simp add: signed_divide_int_def sgn_if)

lemma sdiv_pos_abs_le:
  fixes k l :: int
  assumes "0 < l"
  shows "\<bar>k sdiv l\<bar> \<le> \<bar>k\<bar>"
proof (cases "0 \<le> k")
  case True
  then have "0 \<le> k div l" "k div l \<le> k"
    using assms int_div_le_self [of k l] by (cases "k = 0"; simp add: pos_imp_zdiv_nonneg_iff)+
  then show ?thesis using True assms by (simp add: sdiv_pos)
next
  case False
  then have "0 \<le> (- k) div l" "(- k) div l \<le> - k"
    using assms int_div_le_self [of "- k" l] by (simp_all add: pos_imp_zdiv_nonneg_iff)
  then show ?thesis using False assms by (simp add: sdiv_pos)
qed

lemma arduino_map_small:
  assumes "\<bar>x\<bar> \<le> 32768" "\<bar>in_min\<bar> \<le> 32768" "\<bar>in_max\<bar> \<le> 32768" "in_min < in_max"
    "\<bar>out_min\<bar> \<le> 32768" "\<bar>out_max - out_min\<bar> \<le> 256"
  shows "arduino_map x in_min in_max out_min out_max =
           ((x - in_min) * (out_max - out_min)) sdiv (in_max - in_min) + out_min"
proof -
  have a: "\<bar>x - in_min\<bar> \<le> 65536" and c: "0 < in_max - in_min" "in_max - in_min \<le> 65536"
    using assms by linarith+
  have "\<bar>(x - in_min) * (out_max - out_min)\<bar> \<le> 65536 * 256"
    unfolding abs_mult using a assms(6) by (intro mult_mono) simp_all
  then have d: "\<bar>(x - in_min) * (out_max - out_min)\<bar> \<le> 16777216" by simp
  have e: "\<bar>((x - in_min) * (out_max - out_min)) sdiv (in_max - in_min)\<bar> \<le> 16777216"
    using sdiv_pos_abs_le [OF c(1), of "(x - in_min) * (out_max - out_min)"] d by linarith
  have l1: "long (x - in_min) = x - in_min" using a by (intro long_id) linarith+
  have l2: "long (out_max - out_min) = out_max - out_min" using assms(6) by (intro long_id) linarith+
  have l3: "long (in_max - in_min) = in_max - in_min" using c by (intro long_id) linarith+
  have l4: "long ((x - in_min) * (out_max - out_min)) = (x - in_min) * (out_max - out_min)"
    using d by (intro long_id) linarith+
  have l5: "long (((x - in_min) * (out_max - out_min)) sdiv (in_max - in_min))
              = ((x - in_min) * (out_max - out_min)) sdiv (in_max - in_min)"
    using e by (intro long_id) linarith+
  have l6: "long (((x - in_min) * (out_max - out_min)) sdiv (in_max - in_min) + out_min)
              = ((x - in_min) * (out_max - out_min)) sdiv (in_max - in_min) + out_min"
    using e assms(5) by (intro long_id) linarith+
  show ?thesis
    by (simp add: arduino_map_def l1 l2 l3 l4 l5 l6)
qed

lemma sint_abs_le: "\<bar>sint (w :: 16 word)\<bar> \<le> 32768"
  using sint_ge [of w] sint_lt [of w] by simp

lemma hue_map_closed:
  "arduino_map (sint (w :: 16 word)) 0 500 76 204 = (sint w * 128) sdiv 500 + 76"
  using arduino_map_small [of "sint w" 0 500 76 204] sint_abs_le [of w] by simp

lemma hue_map_in_range:
  fixes k :: int
  assumes "0 \<le> k" "k \<le> 703"
  shows "0 \<le> (k * 128) sdiv 500 + 76" "(k * 128) sdiv 500 + 76 < 256"
proof -
  have "(k * 128) sdiv 500 = (k * 128) div 500" using assms by (simp add: sdiv_pos)
  moreover have "0 \<le> (k * 128) div 500" using assms by (simp add: pos_imp_zdiv_nonneg_iff)
  moreover have "(k * 128) div 500 \<le> (703 * 128) div 500"
    using assms by (intro zdiv_mono1) simp_all
  ultimately show "0 \<le> (k * 128) sdiv 500 + 76" "(k * 128) sdiv 500 + 76 < 256" by simp_all
qed

section \<open>Hue\<close>

text \<open>
  Claim C7, as amended. If presence is true, the hue of both strips is the integer linear
  map \<^verbatim>\<open>map(rangeVal, 0, 500, 76, 204) = rangeVal * 128 / 500 + 76\<close> reduced modulo 256,
  because \<^verbatim>\<open>hue\<close> is an 8-bit field; it equals the linear map itself for distances from
  0 to 703 mm (so 0 gives 76 and 500 gives 204, with no clamping at 500). If presence is
  false, the hue of both strips is 140 whatever the last distance.
\<close>

theorem do_colour_variation_hue:
  "(isUserPresent s \<longrightarrow>
      hue (strip1Color (do_colour_variation s)) =
        word_of_int (arduino_map (sint (rangeVal s)) 0 500 76 204) \<and>
      hue (strip2Color (do_colour_variation s)) =
        word_of_int (arduino_map (sint (rangeVal s)) 0 500 76 204) \<and>
      arduino_map (sint (rangeVal s)) 0 500 76 204 = (sint (rangeVal s) * 128) sdiv 500 + 76 \<and>
      (0 \<le> sint (rangeVal s) \<and> sint (rangeVal s) \<le> 703 \<longrightarrow>
         uint (hue (strip1Color (do_colour_variation s))) =
           arduino_map (sint (rangeVal s)) 0 500 76 204 \<and>
         uint (hue (strip2Color (do_colour_variation s))) =
           arduino_map (sint (rangeVal s)) 0 500 76 204)) \<and>
   (\<not> isUserPresent s \<longrightarrow>
      hue (strip1Color (do_colour_variation s)) = 140 \<and>
      hue (strip2Color (do_colour_variation s)) = 140)"
proof -
  have h: "isUserPresent s \<Longrightarrow>
      hue (strip1Color (do_colour_variation s)) =
        word_of_int (arduino_map (sint (rangeVal s)) 0 500 76 204) \<and>
      hue (strip2Color (do_colour_variation s)) =
        word_of_int (arduino_map (sint (rangeVal s)) 0 500 76 204)"
    by (simp add: do_colour_variation_def Let_def)
  have n: "\<not> isUserPresent s \<Longrightarrow>
      hue (strip1Color (do_colour_variation s)) = 140 \<and>
      hue (strip2Color (do_colour_variation s)) = 140"
    by (simp add: do_colour_variation_def Let_def cblue_def)
  have u: "uint (word_of_int (arduino_map (sint (rangeVal s)) 0 500 76 204) :: 8 word) =
             arduino_map (sint (rangeVal s)) 0 500 76 204"
    if "0 \<le> sint (rangeVal s)" "sint (rangeVal s) \<le> 703"
    using hue_map_in_range [OF that]
    by (simp only: hue_map_closed uint_word_of_int) (simp add: take_bit_int_eq_self)
  show ?thesis
    using h n u hue_map_closed [of "rangeVal s"] by metis
qed

theorem do_colour_variation_hue_witness:
  "isUserPresent ((initial_state pm25_build)\<lparr>isUserPresent := True, rangeVal := 0\<rparr>) \<and>
   isUserPresent ((initial_state pm25_build)\<lparr>isUserPresent := True, rangeVal := 500\<rparr>) \<and>
   \<not> isUserPresent ((initial_state pm25_build)\<lparr>isUserPresent := False, rangeVal := 500\<rparr>) \<and>
   hue (strip1Color (do_colour_variation
      ((initial_state pm25_build)\<lparr>isUserPresent := True, rangeVal := 0\<rparr>))) = 76 \<and>
   hue (strip2Color (do_colour_variation
      ((initial_state pm25_build)\<lparr>isUserPresent := True, rangeVal := 500\<rparr>))) = 204 \<and>
   hue (strip1Color (do_colour_variation
      ((initial_state pm25_build)\<lparr>isUserPresent := False, rangeVal := 500\<rparr>))) = 140"
  using do_colour_variation_hue [of "(initial_state pm25_build)\<lparr>isUserPresent := True, rangeVal := 0\<rparr>"]
    do_colour_variation_hue [of "(initial_state pm25_build)\<lparr>isUserPresent := True, rangeVal := 500\<rparr>"]
    do_colour_variation_hue [of "(initial_state pm25_build)\<lparr>isUserPresent := False, rangeVal := 500\<rparr>"]
  by (simp add: signed_divide_int_def)

text \<open>
  The claim as stated fails beyond 703 mm: a valid reading of 1000 mm counts as present,
  the linear map gives 332, and the hue is 76.
\<close>

theorem do_colour_variation_hue_counterexample:
  "isUserPresent (read_console
      \<lparr>button0_fallingEdge = False, button1_fallingEdge = False,
        ranging = \<lparr>RangeStatus = 0, RangeMilliMeter = 1000\<rparr>, glitter = [], elapsed = 10\<rparr>
      ((initial_state pm25_build)\<lparr>loxmsec := 101\<rparr>)) \<and>
   sint (rangeVal (read_console
      \<lparr>button0_fallingEdge = False, button1_fallingEdge = False,
        ranging = \<lparr>RangeStatus = 0, RangeMilliMeter = 1000\<rparr>, glitter = [], elapsed = 10\<rparr>
      ((initial_state pm25_build)\<lparr>loxmsec := 101\<rparr>))) = 1000 \<and>
   arduino_map 1000 0 500 76 204 = 332 \<and>
   uint (hue (strip1Color (do_colour_variation (read_console
      \<lparr>button0_fallingEdge = False, button1_fallingEdge = False,
        ranging = \<lparr>RangeStatus = 0, RangeMilliMeter = 1000\<rparr>, glitter = [], elapsed = 10\<rparr>
      ((initial_state pm25_build)\<lparr>loxmsec := 101\<rparr>))))) = 76 \<and>
   uint (hue (strip1Color (do_colour_variation (read_console
      \<lparr>button0_fallingEdge = False, button1_fallingEdge = False,
        ranging = \<lparr>RangeStatus = 0, RangeMilliMeter = 1000\<rparr>, glitter = [], elapsed = 10\<rparr>
      ((initial_state pm25_build)\<lparr>loxmsec := 101\<rparr>))))) \<noteq> arduino_map 1000 0 500 76 204"
  by (simp add: read_console_def do_colour_variation_def initial_state_def Let_def
        arduino_map_def long_def signed_divide_int_def)

section \<open>Reading translator\<close>

text \<open>
  Claim C3, as amended. For every dataset and every domain range within the 16-bit
  integers with \<open>domainMin < domainMax\<close>, the translation has the length of the dataset
  and holds at every index the quotient \<^verbatim>\<open>(D[i] - domainMin) * 255 / (domainMax - domainMin)\<close>
  of C's integer division, which truncates towards zero and does not round (for a raw
  value not below \<open>domainMin\<close> it is the floor of the exact quotient), kept in a 16-bit
  \<^verbatim>\<open>int\<close>.
\<close>

theorem translate_truncates:
  assumes "i < length D" "- 32768 \<le> domainMin" "domainMin < domainMax" "domainMax \<le> 32767"
  shows "length (translate D domainMin domainMax) = length D \<and>
         translate D domainMin domainMax ! i =
           word_of_int (((sint (D ! i) - domainMin) * 255) sdiv (domainMax - domainMin)) \<and>
         (domainMin \<le> sint (D ! i) \<longrightarrow>
            ((sint (D ! i) - domainMin) * 255) sdiv (domainMax - domainMin) =
              \<lfloor>real_of_int ((sint (D ! i) - domainMin) * 255) / real_of_int (domainMax - domainMin)\<rfloor>)"
proof -
  have m: "arduino_map (sint (D ! i)) domainMin domainMax 0 255 =
             ((sint (D ! i) - domainMin) * 255) sdiv (domainMax - domainMin)"
    using arduino_map_small [of "sint (D ! i)" domainMin domainMax 0 255] sint_abs_le [of "D ! i"] assms
    by simp
  have f: "domainMin \<le> sint (D ! i) \<Longrightarrow>
            ((sint (D ! i) - domainMin) * 255) sdiv (domainMax - domainMin) =
              \<lfloor>real_of_int ((sint (D ! i) - domainMin) * 255) / real_of_int (domainMax - domainMin)\<rfloor>"
    using assms(3) by (simp only: floor_divide_of_int_eq) (simp add: sdiv_pos)
  show ?thesis
    using assms(1) m f by (simp add: translate_def)
qed

theorem translate_truncates_witness:
  "(0::nat) < length PM25_1 \<and> - 32768 \<le> (0::int) \<and> (0::int) < 125 \<and> (125::int) \<le> 32767 \<and>
   translate PM25_1 0 125 ! 0 = 240 \<and> sint (PM25_1 ! 0) = 118 \<and>
   \<lfloor>real_of_int ((118 - 0) * 255) / real_of_int (125 - 0)\<rfloor> = 240"
  using translate_truncates [of 0 PM25_1 0 125]
  by (simp add: PM25_1_def signed_divide_int_def)

text \<open>
  The claim as stated fails on the first PM2.5 reading: \<open>118 * 255 / 125 = 240.72\<close>, which
  rounds to 241, and \<^verbatim>\<open>register_readings\<close> stores 240.
\<close>

theorem translate_round_counterexample:
  "sint (readings1 (register_readings pm25_build (initial_state pm25_build)) ! 0)
     \<noteq> spec_translate (sint (PM25_1 ! 0)) 0 125"
  by (simp add: register_readings_def pm25_build_def translate_def PM25_1_def arduino_map_def
        long_def signed_divide_int_def spec_translate_def round_def)

section \<open>LED loops\<close>

lemma for_leds_from:
  "i \<le> n \<Longrightarrow> n \<le> length leds \<Longrightarrow>
     for_leds i n f leds = Inr (take i leds @ map f (take (n - i) (drop i leds)) @ drop n leds)"
proof (induction i n f leds rule: for_leds.induct)
  case (1 i n f leds)
  show ?case
  proof (cases "i < n")
    case True
    then have il: "i < length leds" using "1.prems" by simp
    have ih: "for_leds (Suc i) n f (leds[i := f (leds ! i)]) =
        Inr (take (Suc i) (leds[i := f (leds ! i)]) @
             map f (take (n - Suc i) (drop (Suc i) (leds[i := f (leds ! i)]))) @
             drop n (leds[i := f (leds ! i)]))"
      using "1.IH" [OF True il] True "1.prems" by simp
    have a: "take (Suc i) (leds[i := f (leds ! i)]) = take i leds @ [f (leds ! i)]"
      using il by (simp add: take_Suc_conv_app_nth)
    have b: "drop (Suc i) (leds[i := f (leds ! i)]) = drop (Suc i) leds" by simp
    have c: "drop n (leds[i := f (leds ! i)]) = drop n leds" using True by simp
    have d: "take (n - i) (drop i leds) = leds ! i # take (n - Suc i) (drop (Suc i) leds)"
      using True il by (metis Cons_nth_drop_Suc Suc_diff_Suc take_Suc_Cons)
    show ?thesis
      using True il by (subst for_leds.simps) (simp add: ih a b c d del: for_leds.simps)
  next
    case False
    then have "i = n" using "1.prems" by simp
    then show ?thesis by (subst for_leds.simps) simp
  qed
qed

lemma for_leds_all:
  "n \<le> length leds \<Longrightarrow> for_leds 0 n f leds = Inr (map f (take n leds) @ drop n leds)"
  using for_leds_from [of 0 n leds f] by simp

lemma for_leds_error: "for_leds i n f leds = Inl e \<Longrightarrow> e = LedsOutOfBounds"
proof (induction i n f leds rule: for_leds.induct)
  case (1 i n f leds)
  then show ?case
    by (subst (asm) (2) for_leds.simps) (auto split: if_splits simp del: for_leds.simps)
qed

section \<open>The interpolating phase\<close>

lemma ucast_val_round_trip: "(ucast (ucast (v :: 8 word) :: 16 word) :: 8 word) = v"
  by (simp add: ucast_up_ucast_id is_up)

lemma strip1_interpolating_frame:
  assumes "strip1activeLedState s = 1" "int (strip1bandms s) < BAND_DELAY * 2"
    "unat (strip1readingsCounter s) < length (readings1 s)" "BAND1 C \<le> length (leds0 s)"
  shows "strip1_playback_readings L C s =
           (let target = readings1 s ! unat (strip1readingsCounter s);
                v = val (strip1Color s);
                c' = (strip1Color s)\<lparr>val :=
                       (if strip1prevBrightVal s < target
                        then (if ucast v < target then v + 10 else v)
                        else (if target < ucast v then v - 10 else v))\<rparr>
            in Inr (s\<lparr>strip1currBrightVal := target,
                      strip1Color := c',
                      leds0 := map (\<lambda>p. hsv2rgb L c') (take (BAND1 C) (leds0 s))
                               @ drop (BAND1 C) (leds0 s)\<rparr>))"
  using assms
  by (simp add: strip1_playback_readings_def strip1_set_brightLevel_def Let_def for_leds_all
        ucast_val_round_trip del: for_leds.simps)

lemma strip2_interpolating_frame:
  assumes "strip2activeLedState s = 1" "int (strip2bandms s) < BAND_DELAY * 2"
    "unat (strip2readingsCounter s) < length (readings2 s)" "BAND2 C \<le> length (leds1 s)"
  shows "strip2_playback_readings L C s =
           (let target = readings2 s ! unat (strip2readingsCounter s);
                v = val (strip2Color s);
                c' = (strip2Color s)\<lparr>val :=
                       (if strip2prevBrightVal s < target
                        then (if ucast v < target then v + 10 else v)
                        else (if target < ucast v then v - 10 else v))\<rparr>
            in Inr (s\<lparr>strip2currBrightVal := target,
                      strip2Color := c',
                      leds1 := map (\<lambda>p. hsv2rgb L c') (take (BAND2 C) (leds1 s))
                               @ drop (BAND2 C) (leds1 s)\<rparr>))"
  using assms
  by (simp add: strip2_playback_readings_def strip2_set_brightLevel_def Let_def for_leds_all
        ucast_val_round_trip del: for_leds.simps)

lemma unat_ucast_val: "unat (ucast (v :: 8 word) :: 16 word) = unat v"
proof -
  have "unat v < 2 ^ 8" using unsigned_less [of v, where 'a = nat] by simp
  then show ?thesis by (simp add: unsigned_ucast_eq take_bit_nat_eq_self)
qed

lemma u8_plus_10: "unat ((v :: 8 word) + 10) = (unat v + 10) mod 256"
  by (simp add: unat_word_ariths)

lemma u8_minus_10: "unat ((v :: 8 word) - 10) = (unat v + 246) mod 256"
proof -
  have "v - 10 = v + 246" by simp
  then have "unat (v - 10) = unat (v + 246)" by (rule arg_cong)
  then show ?thesis by (simp add: unat_word_ariths)
qed

lemma step_up_bound:
  fixes v :: "8 word" and t :: "16 word"
  assumes "ucast v < t"
  shows "unat (v + 10) < unat t + 10"
proof -
  have "unat v < unat t" using assms by (simp add: word_less_nat_alt unat_ucast_val)
  moreover have "(unat v + 10) mod 256 \<le> unat v + 10" by simp
  ultimately show ?thesis unfolding u8_plus_10 by linarith
qed

lemma step_down_bound:
  fixes v :: "8 word" and t :: "16 word"
  assumes "t < ucast v"
  shows "unat t < unat (v - 10) + 10"
proof -
  have a: "unat t < unat v" using assms by (simp add: word_less_nat_alt unat_ucast_val)
  have b: "unat v < 256" using unsigned_less [of v, where 'a = nat] by simp
  show ?thesis
  proof (cases "10 \<le> unat v")
    case True
    then have "unat v + 246 = (unat v - 10) + 256" by linarith
    then have "(unat v + 246) mod 256 = (unat v - 10) mod 256" by (simp only: mod_add_self2)
    then have "(unat v + 246) mod 256 = unat v - 10" using b by simp
    then show ?thesis using a True unfolding u8_minus_10 by linarith
  next
    case False
    then have "(unat v + 246) mod 256 = unat v + 246" using b by simp
    then show ?thesis using a False unfolding u8_minus_10 by linarith
  qed
qed

lemmas step_up_bound_mod = step_up_bound [unfolded u8_plus_10]
lemmas step_down_bound_mod = step_down_bound [unfolded u8_minus_10]

lemma pm25_readings1:
  "readings1 (arduino_setup pm25_build t) =
     [240, 77, 69, 226, 255, 167, 363, 354, 87, 87, 85, 169, 128, 169, 173, 210, 138, 108, 110, 134]"
  by (simp add: arduino_setup_def register_readings_def pm25_build_def translate_def PM25_1_def
        arduino_map_def long_def signed_divide_int_def)

lemma pm25_readings2:
  "readings2 (arduino_setup pm25_build t) =
     [132, 179, 89, 85, 148, 140, 142, 124, 110, 181, 175, 185, 122, 128, 187, 179, 193, 112,
      173, 99, 97, 104, 71, 77, 99, 104, 42, 65, 57, 85, 42, 51]"
  by (simp add: arduino_setup_def register_readings_def pm25_build_def translate_def PM25_2_def
        arduino_map_def long_def signed_divide_int_def)

lemma pm25_leds: "length (leds0 (arduino_setup pm25_build t)) = 55"
  "length (leds1 (arduino_setup pm25_build t)) = 55"
  by (simp_all add: arduino_setup_def register_readings_def pm25_build_def pass_time_def
        initial_state_def PM25band1_def PM25band2_def)

lemma pm25_bands: "BAND1 pm25_build = 55" "BAND2 pm25_build = 55"
  by (simp_all add: pm25_build_def PM25band1_def PM25band2_def)

lemma pm25_playing_ready:
  assumes "cursor < 20" "ms < 1000"
  shows "strip1activeLedState (pm25_playing cursor previous v ms) = 1 \<and>
     int (strip1bandms (pm25_playing cursor previous v ms)) < BAND_DELAY * 2 \<and>
     unat (strip1readingsCounter (pm25_playing cursor previous v ms))
       < length (readings1 (pm25_playing cursor previous v ms)) \<and>
     BAND1 pm25_build \<le> length (leds0 (pm25_playing cursor previous v ms))"
    and "strip2activeLedState (pm25_playing cursor previous v ms) = 1 \<and>
     int (strip2bandms (pm25_playing cursor previous v ms)) < BAND_DELAY * 2 \<and>
     unat (strip2readingsCounter (pm25_playing cursor previous v ms))
       < length (readings2 (pm25_playing cursor previous v ms)) \<and>
     BAND2 pm25_build \<le> length (leds1 (pm25_playing cursor previous v ms))"
  using assms
  by (simp_all add: pm25_playing_def pm25_readings1 pm25_readings2 pm25_leds BAND_DELAY_def
        unat_of_nat pm25_bands)

lemma pm25_playing_fields:
  "cursor < 20 \<Longrightarrow>
     readings1 (pm25_playing cursor previous v ms)
       ! unat (strip1readingsCounter (pm25_playing cursor previous v ms)) =
     [240, 77, 69, 226, 255, 167, 363, 354, 87, 87, 85, 169, 128, 169, 173, 210, 138, 108, 110,
      134] ! cursor"
  "cursor < 20 \<Longrightarrow>
     readings2 (pm25_playing cursor previous v ms)
       ! unat (strip2readingsCounter (pm25_playing cursor previous v ms)) =
     [132, 179, 89, 85, 148, 140, 142, 124, 110, 181, 175, 185, 122, 128, 187, 179, 193, 112,
      173, 99, 97, 104, 71, 77, 99, 104, 42, 65, 57, 85, 42, 51] ! cursor"
  "val (strip1Color (pm25_playing cursor previous v ms)) = v"
  "val (strip2Color (pm25_playing cursor previous v ms)) = v"
  "strip1prevBrightVal (pm25_playing cursor previous v ms) = previous"
  "strip2prevBrightVal (pm25_playing cursor previous v ms) = previous"
  "strip1activeLedState (pm25_playing cursor previous v ms) = 1"
  "strip2activeLedState (pm25_playing cursor previous v ms) = 1"
  "strip1bandms (pm25_playing cursor previous v ms) = ms"
  "strip2bandms (pm25_playing cursor previous v ms) = ms"
  by (simp_all add: pm25_playing_def pm25_readings1 pm25_readings2 unat_of_nat)

lemma strip1_interpolating_val:
  assumes "strip1activeLedState s = 1 \<and> int (strip1bandms s) < BAND_DELAY * 2 \<and>
    unat (strip1readingsCounter s) < length (readings1 s) \<and> BAND1 C \<le> length (leds0 s)"
  shows "\<not> isl (strip1_playback_readings L C s)"
    and "val (strip1Color (projr (strip1_playback_readings L C s))) =
           (if strip1prevBrightVal s < readings1 s ! unat (strip1readingsCounter s)
            then (if ucast (val (strip1Color s)) < readings1 s ! unat (strip1readingsCounter s)
                  then val (strip1Color s) + 10 else val (strip1Color s))
            else (if readings1 s ! unat (strip1readingsCounter s) < ucast (val (strip1Color s))
                  then val (strip1Color s) - 10 else val (strip1Color s)))"
  using assms by (simp_all add: strip1_interpolating_frame Let_def)

lemma val_below_large_target:
  fixes v :: "8 word" and t :: "16 word"
  assumes "255 < unat t"
  shows "ucast v < t" "\<not> t < ucast v"
proof -
  have "unat v < 256" using unsigned_less [of v, where 'a = nat] by simp
  then show "ucast v < t" "\<not> t < ucast v"
    using assms by (simp_all add: word_less_nat_alt unat_ucast_val)
qed

lemma u8_wrap_past_255: "246 \<le> unat (v :: 8 word) \<Longrightarrow> unat (v + 10) = unat v - 246"
proof -
  assume a: "246 \<le> unat v"
  have b: "unat v < 256" using unsigned_less [of v, where 'a = nat] by simp
  have "unat v + 10 = (unat v - 246) + 256" using a by linarith
  then have "(unat v + 10) mod 256 = (unat v - 246) mod 256" by (simp only: mod_add_self2)
  then show ?thesis using b by (simp add: u8_plus_10)
qed

text \<open>
  Claim C1, as amended. In the interpolating phase, on every frame within the dwell window
  (cursor inside the sequence, pixel loop inside its array), with the target
  \<^verbatim>\<open>readings[cursor]\<close>: if the target is greater than the previous target, the value is
  incremented by 10 modulo 256 when it is below the target and left alone otherwise; if
  the target is not greater than the previous target, the value is decremented by 10 modulo
  256 when it is above the target and left alone otherwise. The step is not cut at the
  target: the new value can pass it, by less than 10. This holds for both strips.
\<close>

theorem interpolating_step_by_ten:
  "(strip1activeLedState s = 1 \<and> int (strip1bandms s) < BAND_DELAY * 2 \<and>
    unat (strip1readingsCounter s) < length (readings1 s) \<and> BAND1 C \<le> length (leds0 s) \<longrightarrow>
      (\<exists>s'. strip1_playback_readings L C s = Inr s' \<and>
         strip1currBrightVal s' = readings1 s ! unat (strip1readingsCounter s) \<and>
         (strip1prevBrightVal s < strip1currBrightVal s' \<and>
          ucast (val (strip1Color s)) < strip1currBrightVal s' \<longrightarrow>
            val (strip1Color s') = val (strip1Color s) + 10 \<and>
            unat (val (strip1Color s')) = (unat (val (strip1Color s)) + 10) mod 256 \<and>
            unat (val (strip1Color s')) < unat (strip1currBrightVal s') + 10) \<and>
         (strip1prevBrightVal s < strip1currBrightVal s' \<and>
          \<not> ucast (val (strip1Color s)) < strip1currBrightVal s' \<longrightarrow>
            val (strip1Color s') = val (strip1Color s)) \<and>
         (\<not> strip1prevBrightVal s < strip1currBrightVal s' \<and>
          strip1currBrightVal s' < ucast (val (strip1Color s)) \<longrightarrow>
            val (strip1Color s') = val (strip1Color s) - 10 \<and>
            unat (val (strip1Color s')) = (unat (val (strip1Color s)) + 246) mod 256 \<and>
            unat (strip1currBrightVal s') < unat (val (strip1Color s')) + 10) \<and>
         (\<not> strip1prevBrightVal s < strip1currBrightVal s' \<and>
          \<not> strip1currBrightVal s' < ucast (val (strip1Color s)) \<longrightarrow>
            val (strip1Color s') = val (strip1Color s)))) \<and>
   (strip2activeLedState s = 1 \<and> int (strip2bandms s) < BAND_DELAY * 2 \<and>
    unat (strip2readingsCounter s) < length (readings2 s) \<and> BAND2 C \<le> length (leds1 s) \<longrightarrow>
      (\<exists>s'. strip2_playback_readings L C s = Inr s' \<and>
         strip2currBrightVal s' = readings2 s ! unat (strip2readingsCounter s) \<and>
         (strip2prevBrightVal s < strip2currBrightVal s' \<and>
          ucast (val (strip2Color s)) < strip2currBrightVal s' \<longrightarrow>
            val (strip2Color s') = val (strip2Color s) + 10 \<and>
            unat (val (strip2Color s')) = (unat (val (strip2Color s)) + 10) mod 256 \<and>
            unat (val (strip2Color s')) < unat (strip2currBrightVal s') + 10) \<and>
         (strip2prevBrightVal s < strip2currBrightVal s' \<and>
          \<not> ucast (val (strip2Color s)) < strip2currBrightVal s' \<longrightarrow>
            val (strip2Color s') = val (strip2Color s)) \<and>
         (\<not> strip2prevBrightVal s < strip2currBrightVal s' \<and>
          strip2currBrightVal s' < ucast (val (strip2Color s)) \<longrightarrow>
            val (strip2Color s') = val (strip2Color s) - 10 \<and>
            unat (val (strip2Color s')) = (unat (val (strip2Color s)) + 246) mod 256 \<and>
            unat (strip2currBrightVal s') < unat (val (strip2Color s')) + 10) \<and>
         (\<not> strip2prevBrightVal s < strip2currBrightVal s' \<and>
          \<not> strip2currBrightVal s' < ucast (val (strip2Color s)) \<longrightarrow>
            val (strip2Color s') = val (strip2Color s))))"
proof (intro conjI impI)
  assume a: "strip1activeLedState s = 1 \<and> int (strip1bandms s) < BAND_DELAY * 2 \<and>
    unat (strip1readingsCounter s) < length (readings1 s) \<and> BAND1 C \<le> length (leds0 s)"
  show "\<exists>s'. strip1_playback_readings L C s = Inr s' \<and>
         strip1currBrightVal s' = readings1 s ! unat (strip1readingsCounter s) \<and>
         (strip1prevBrightVal s < strip1currBrightVal s' \<and>
          ucast (val (strip1Color s)) < strip1currBrightVal s' \<longrightarrow>
            val (strip1Color s') = val (strip1Color s) + 10 \<and>
            unat (val (strip1Color s')) = (unat (val (strip1Color s)) + 10) mod 256 \<and>
            unat (val (strip1Color s')) < unat (strip1currBrightVal s') + 10) \<and>
         (strip1prevBrightVal s < strip1currBrightVal s' \<and>
          \<not> ucast (val (strip1Color s)) < strip1currBrightVal s' \<longrightarrow>
            val (strip1Color s') = val (strip1Color s)) \<and>
         (\<not> strip1prevBrightVal s < strip1currBrightVal s' \<and>
          strip1currBrightVal s' < ucast (val (strip1Color s)) \<longrightarrow>
            val (strip1Color s') = val (strip1Color s) - 10 \<and>
            unat (val (strip1Color s')) = (unat (val (strip1Color s)) + 246) mod 256 \<and>
            unat (strip1currBrightVal s') < unat (val (strip1Color s')) + 10) \<and>
         (\<not> strip1prevBrightVal s < strip1currBrightVal s' \<and>
          \<not> strip1currBrightVal s' < ucast (val (strip1Color s)) \<longrightarrow>
            val (strip1Color s') = val (strip1Color s))"
    using a
    by (simp add: strip1_interpolating_frame Let_def u8_plus_10 u8_minus_10 step_up_bound_mod
          step_down_bound_mod)
next
  assume a: "strip2activeLedState s = 1 \<and> int (strip2bandms s) < BAND_DELAY * 2 \<and>
    unat (strip2readingsCounter s) < length (readings2 s) \<and> BAND2 C \<le> length (leds1 s)"
  show "\<exists>s'. strip2_playback_readings L C s = Inr s' \<and>
         strip2currBrightVal s' = readings2 s ! unat (strip2readingsCounter s) \<and>
         (strip2prevBrightVal s < strip2currBrightVal s' \<and>
          ucast (val (strip2Color s)) < strip2currBrightVal s' \<longrightarrow>
            val (strip2Color s') = val (strip2Color s) + 10 \<and>
            unat (val (strip2Color s')) = (unat (val (strip2Color s)) + 10) mod 256 \<and>
            unat (val (strip2Color s')) < unat (strip2currBrightVal s') + 10) \<and>
         (strip2prevBrightVal s < strip2currBrightVal s' \<and>
          \<not> ucast (val (strip2Color s)) < strip2currBrightVal s' \<longrightarrow>
            val (strip2Color s') = val (strip2Color s)) \<and>
         (\<not> strip2prevBrightVal s < strip2currBrightVal s' \<and>
          strip2currBrightVal s' < ucast (val (strip2Color s)) \<longrightarrow>
            val (strip2Color s') = val (strip2Color s) - 10 \<and>
            unat (val (strip2Color s')) = (unat (val (strip2Color s)) + 246) mod 256 \<and>
            unat (strip2currBrightVal s') < unat (val (strip2Color s')) + 10) \<and>
         (\<not> strip2prevBrightVal s < strip2currBrightVal s' \<and>
          \<not> strip2currBrightVal s' < ucast (val (strip2Color s)) \<longrightarrow>
            val (strip2Color s') = val (strip2Color s))"
    using a
    by (simp add: strip2_interpolating_frame Let_def u8_plus_10 u8_minus_10 step_up_bound_mod
          step_down_bound_mod)
qed

text \<open>First frame of a playback of the PM2.5 build: both strips go from 0 to 10.\<close>

theorem interpolating_step_by_ten_witness:
  "(strip1activeLedState (pm25_playing 0 0 0 0) = 1 \<and>
    int (strip1bandms (pm25_playing 0 0 0 0)) < BAND_DELAY * 2 \<and>
    unat (strip1readingsCounter (pm25_playing 0 0 0 0)) < length (readings1 (pm25_playing 0 0 0 0)) \<and>
    BAND1 pm25_build \<le> length (leds0 (pm25_playing 0 0 0 0))) \<and>
   (strip2activeLedState (pm25_playing 0 0 0 0) = 1 \<and>
    int (strip2bandms (pm25_playing 0 0 0 0)) < BAND_DELAY * 2 \<and>
    unat (strip2readingsCounter (pm25_playing 0 0 0 0)) < length (readings2 (pm25_playing 0 0 0 0)) \<and>
    BAND2 pm25_build \<le> length (leds1 (pm25_playing 0 0 0 0))) \<and>
   (\<exists>s'. strip1_playback_readings grey_fastled pm25_build (pm25_playing 0 0 0 0) = Inr s' \<and>
      strip1currBrightVal s' = 240 \<and> val (strip1Color s') = 10) \<and>
   (\<exists>s'. strip2_playback_readings grey_fastled pm25_build (pm25_playing 0 0 0 0) = Inr s' \<and>
      strip2currBrightVal s' = 132 \<and> val (strip2Color s') = 10)"
  using interpolating_step_by_ten [of "pm25_playing 0 0 0 0" pm25_build grey_fastled]
    pm25_playing_ready [of 0 0 0 0]
  by (auto simp: pm25_playing_fields)

text \<open>
  The claim as stated fails in the second dwell window of strip 1 of the PM2.5 build: the
  target 77 follows the target 240, the value comes down from 240 in steps of 10, and the
  frame that finds it at 80 takes it to 70, below the target.
\<close>

theorem interpolating_overshoot_counterexample:
  "readings1 (pm25_playing 1 240 80 0) ! unat (strip1readingsCounter (pm25_playing 1 240 80 0)) = 77 \<and>
   strip1prevBrightVal (pm25_playing 1 240 80 0) = 240 \<and>
   val (strip1Color (pm25_playing 1 240 80 0)) = 80 \<and>
   strip1activeLedState (pm25_playing 1 240 80 0) = 1 \<and>
   int (strip1bandms (pm25_playing 1 240 80 0)) < BAND_DELAY * 2 \<and>
   \<not> isl (strip1_playback_readings grey_fastled pm25_build (pm25_playing 1 240 80 0)) \<and>
   val (strip1Color (projr (strip1_playback_readings grey_fastled pm25_build
                              (pm25_playing 1 240 80 0)))) = 70 \<and>
   unat (val (strip1Color (projr (strip1_playback_readings grey_fastled pm25_build
                              (pm25_playing 1 240 80 0)))))
     < unat (readings1 (pm25_playing 1 240 80 0)
               ! unat (strip1readingsCounter (pm25_playing 1 240 80 0)))"
  using strip1_interpolating_val [OF pm25_playing_ready(1) [of 1 0 240 80], of grey_fastled]
  by (simp add: pm25_playing_fields BAND_DELAY_def)

text \<open>
  Claim C10, as amended. The PM2.5 readings 178 and 174 translate to 363 and 354, above
  255. For a target above 255, on every frame within the dwell window the stored 8-bit
  value differs from the target; if the target is greater than the previous target, the
  value is incremented by 10 modulo 256 on every such frame, whatever it is, and so wraps
  around past 255 (from 246 or more it comes back to the value minus 246); if the target is
  not greater than the previous target, the value is left unchanged.
\<close>

theorem interpolating_target_above_255:
  "sint (PM25_1 ! 6) = 178 \<and> sint (PM25_1 ! 7) = 174 \<and>
   readings1 (register_readings pm25_build s0) ! 6 = 363 \<and>
   readings1 (register_readings pm25_build s0) ! 7 = 354 \<and>
   (strip1activeLedState s = 1 \<and> int (strip1bandms s) < BAND_DELAY * 2 \<and>
    unat (strip1readingsCounter s) < length (readings1 s) \<and> BAND1 C \<le> length (leds0 s) \<and>
    255 < unat (readings1 s ! unat (strip1readingsCounter s)) \<longrightarrow>
      (\<exists>s'. strip1_playback_readings L C s = Inr s' \<and>
         strip1currBrightVal s' = readings1 s ! unat (strip1readingsCounter s) \<and>
         ucast (val (strip1Color s')) \<noteq> strip1currBrightVal s' \<and>
         (strip1prevBrightVal s < strip1currBrightVal s' \<longrightarrow>
            val (strip1Color s') = val (strip1Color s) + 10 \<and>
            unat (val (strip1Color s')) = (unat (val (strip1Color s)) + 10) mod 256 \<and>
            (246 \<le> unat (val (strip1Color s)) \<longrightarrow>
               unat (val (strip1Color s')) = unat (val (strip1Color s)) - 246)) \<and>
         (\<not> strip1prevBrightVal s < strip1currBrightVal s' \<longrightarrow>
            val (strip1Color s') = val (strip1Color s))))"
proof (intro conjI impI)
  show "sint (PM25_1 ! 6) = 178" "sint (PM25_1 ! 7) = 174"
    by (simp_all add: PM25_1_def)
  show "readings1 (register_readings pm25_build s0) ! 6 = 363"
    "readings1 (register_readings pm25_build s0) ! 7 = 354"
    by (simp_all add: register_readings_def pm25_build_def translate_def PM25_1_def
          arduino_map_def long_def signed_divide_int_def)
next
  assume a: "strip1activeLedState s = 1 \<and> int (strip1bandms s) < BAND_DELAY * 2 \<and>
    unat (strip1readingsCounter s) < length (readings1 s) \<and> BAND1 C \<le> length (leds0 s) \<and>
    255 < unat (readings1 s ! unat (strip1readingsCounter s))"
  then have big: "255 < unat (readings1 s ! unat (strip1readingsCounter s))" by simp
  have ne: "ucast w \<noteq> readings1 s ! unat (strip1readingsCounter s)" for w :: "8 word"
    using val_below_large_target(1) [OF big, of w] by simp
  show "\<exists>s'. strip1_playback_readings L C s = Inr s' \<and>
         strip1currBrightVal s' = readings1 s ! unat (strip1readingsCounter s) \<and>
         ucast (val (strip1Color s')) \<noteq> strip1currBrightVal s' \<and>
         (strip1prevBrightVal s < strip1currBrightVal s' \<longrightarrow>
            val (strip1Color s') = val (strip1Color s) + 10 \<and>
            unat (val (strip1Color s')) = (unat (val (strip1Color s)) + 10) mod 256 \<and>
            (246 \<le> unat (val (strip1Color s)) \<longrightarrow>
               unat (val (strip1Color s')) = unat (val (strip1Color s)) - 246)) \<and>
         (\<not> strip1prevBrightVal s < strip1currBrightVal s' \<longrightarrow>
            val (strip1Color s') = val (strip1Color s))"
    using a val_below_large_target [OF big] ne
    by (simp add: strip1_interpolating_frame Let_def u8_plus_10 u8_wrap_past_255 [unfolded u8_plus_10])
qed

text \<open>Target 363 after 167, value 250: the frame stores 4.\<close>

theorem interpolating_target_above_255_witness:
  "strip1activeLedState (pm25_playing 6 167 250 0) = 1 \<and>
   int (strip1bandms (pm25_playing 6 167 250 0)) < BAND_DELAY * 2 \<and>
   unat (strip1readingsCounter (pm25_playing 6 167 250 0)) < length (readings1 (pm25_playing 6 167 250 0)) \<and>
   BAND1 pm25_build \<le> length (leds0 (pm25_playing 6 167 250 0)) \<and>
   255 < unat (readings1 (pm25_playing 6 167 250 0) ! unat (strip1readingsCounter (pm25_playing 6 167 250 0))) \<and>
   strip1prevBrightVal (pm25_playing 6 167 250 0) = 167 \<and>
   val (strip1Color (pm25_playing 6 167 250 0)) = 250 \<and>
   (\<exists>s'. strip1_playback_readings grey_fastled pm25_build (pm25_playing 6 167 250 0) = Inr s' \<and>
      strip1currBrightVal s' = 363 \<and> val (strip1Color s') = 4)"
  using interpolating_target_above_255 [of "initial_state pm25_build" "pm25_playing 6 167 250 0" pm25_build grey_fastled]
    pm25_playing_ready(1) [of 6 0 167 250]
  by (auto simp: pm25_playing_fields)

text \<open>
  The claim as stated fails for the reading 174 that it names: its target 354 follows the
  target 363, so the decrementing branch is taken, the value is not above the target, and
  the frame leaves it at 100; no increment takes place in that dwell window.
\<close>

theorem interpolating_target_above_255_counterexample:
  "readings1 (pm25_playing 7 363 100 0) ! unat (strip1readingsCounter (pm25_playing 7 363 100 0)) = 354 \<and>
   255 < unat (readings1 (pm25_playing 7 363 100 0)
                 ! unat (strip1readingsCounter (pm25_playing 7 363 100 0))) \<and>
   strip1prevBrightVal (pm25_playing 7 363 100 0) = 363 \<and>
   val (strip1Color (pm25_playing 7 363 100 0)) = 100 \<and>
   strip1activeLedState (pm25_playing 7 363 100 0) = 1 \<and>
   int (strip1bandms (pm25_playing 7 363 100 0)) < BAND_DELAY * 2 \<and>
   \<not> isl (strip1_playback_readings grey_fastled pm25_build (pm25_playing 7 363 100 0)) \<and>
   val (strip1Color (projr (strip1_playback_readings grey_fastled pm25_build
                              (pm25_playing 7 363 100 0)))) = 100 \<and>
   val (strip1Color (projr (strip1_playback_readings grey_fastled pm25_build
                              (pm25_playing 7 363 100 0))))
     \<noteq> val (strip1Color (pm25_playing 7 363 100 0)) + 10"
  using strip1_interpolating_val [OF pm25_playing_ready(1) [of 7 0 363 100], of grey_fastled]
  by (simp add: pm25_playing_fields BAND_DELAY_def)

section \<open>Idle animation of strip 2 in the CO2 build\<close>

lemma strip2_idle_co2_frame:
  assumes "SCULPTURE_ID C = 1" "BAND2 C \<le> length (leds3 s)"
  shows "strip2_idle_animation L C s =
           (let brightlevel = strip2_get_brightness s (strip2brightness s);
                s2 = s\<lparr>strip2brightness := brightlevel,
                       strip2Color := (strip2Color s)\<lparr>val := ucast brightlevel\<rparr>,
                       leds3 := replicate (BAND2 C) (hsv2rgb L (strip1Color s))
                                @ drop (BAND2 C) (leds3 s)\<rparr>
            in Inr (if brightlevel = strip2maxBrightLvl s then s2\<lparr>strip2isMaxBrightness := True\<rparr>
                    else if brightlevel = 0 then s2\<lparr>strip2isMaxBrightness := False\<rparr>
                    else s2))"
  using assms
  by (simp add: strip2_idle_animation_def Let_def for_leds_all map_replicate_const
        del: for_leds.simps)

text \<open>
  Claim C9. When \<^verbatim>\<open>SCULPTURE_ID\<close> is 1, \<^verbatim>\<open>strip2_idle_animation\<close> writes the pixel of
  \<^verbatim>\<open>strip1Color\<close> (strip 1's hue, saturation and value) to the \<^verbatim>\<open>BAND2\<close> pixels of strip 2's
  array \<^verbatim>\<open>leds3\<close>, that is to every pixel when \<^verbatim>\<open>BAND2\<close> is the size of the array; strip 2's
  own colour record only receives the new brightness and is not what is written.
\<close>

theorem strip2_idle_paints_strip1Color:
  "SCULPTURE_ID C = 1 \<and> BAND2 C \<le> length (leds3 s) \<longrightarrow>
     (\<exists>s'. strip2_idle_animation L C s = Inr s' \<and>
        leds3 s' = replicate (BAND2 C) (hsv2rgb L (strip1Color s)) @ drop (BAND2 C) (leds3 s) \<and>
        (\<forall>i < BAND2 C. leds3 s' ! i = hsv2rgb L (strip1Color s)) \<and>
        (BAND2 C = length (leds3 s) \<longrightarrow>
           leds3 s' = replicate (length (leds3 s)) (hsv2rgb L (strip1Color s))) \<and>
        strip1Color s' = strip1Color s \<and>
        strip2Color s' =
          (strip2Color s)\<lparr>val := ucast (strip2_get_brightness s (strip2brightness s))\<rparr> \<and>
        leds1 s' = leds1 s)"
proof
  assume a: "SCULPTURE_ID C = 1 \<and> BAND2 C \<le> length (leds3 s)"
  have n: "(replicate (BAND2 C) x @ drop (BAND2 C) (leds3 s)) ! i = x" if "i < BAND2 C" for i x
    using that by (simp add: nth_append)
  show "\<exists>s'. strip2_idle_animation L C s = Inr s' \<and>
        leds3 s' = replicate (BAND2 C) (hsv2rgb L (strip1Color s)) @ drop (BAND2 C) (leds3 s) \<and>
        (\<forall>i < BAND2 C. leds3 s' ! i = hsv2rgb L (strip1Color s)) \<and>
        (BAND2 C = length (leds3 s) \<longrightarrow>
           leds3 s' = replicate (length (leds3 s)) (hsv2rgb L (strip1Color s))) \<and>
        strip1Color s' = strip1Color s \<and>
        strip2Color s' =
          (strip2Color s)\<lparr>val := ucast (strip2_get_brightness s (strip2brightness s))\<rparr> \<and>
        leds1 s' = leds1 s"
    using a n by (simp add: strip2_idle_co2_frame Let_def)
qed

lemma co2_setup_fields:
  "length (leds3 (arduino_setup co2_build t)) = 55"
  "strip1Color (arduino_setup co2_build t) = cblue"
  "strip2Color (arduino_setup co2_build t) = cblue"
  "strip2brightness (arduino_setup co2_build t) = 0"
  "strip2maxBrightLvl (arduino_setup co2_build t) = 255"
  "strip2isMaxBrightness (arduino_setup co2_build t) = False"
  "SCULPTURE_ID co2_build = 1" "BAND2 co2_build = 55"
  by (simp_all add: arduino_setup_def register_readings_def co2_build_def pass_time_def
        initial_state_def CO2band2_def)

text \<open>
  First idle frame of the CO2 build: strip 2's brightness becomes 1, and all 55 pixels of
  \<^verbatim>\<open>leds3\<close> carry strip 1's value 255.
\<close>

theorem strip2_idle_paints_strip1Color_witness:
  "SCULPTURE_ID co2_build = 1 \<and> BAND2 co2_build \<le> length (leds3 (arduino_setup co2_build 2010)) \<and>
   BAND2 co2_build = length (leds3 (arduino_setup co2_build 2010)) \<and>
   (\<exists>s'. strip2_idle_animation grey_fastled co2_build (arduino_setup co2_build 2010) = Inr s' \<and>
      leds3 s' = replicate 55 \<lparr>red = 255, green = 255, blue = 255\<rparr> \<and>
      val (strip1Color s') = 255 \<and> val (strip2Color s') = 1)"
  using strip2_idle_paints_strip1Color [of co2_build "arduino_setup co2_build 2010" grey_fastled]
  by (auto simp: co2_setup_fields strip2_get_brightness_def cblue_def grey_fastled_def)

section \<open>The cursor stays inside the brightness sequence\<close>

lemma and_then_eq_Inr: "and_then m f = Inr y \<longleftrightarrow> (\<exists>x. m = Inr x \<and> f x = Inr y)"
  by (cases m) simp_all

lemma and_then_eq_Inl: "and_then m f = Inl e \<longleftrightarrow> m = Inl e \<or> (\<exists>x. m = Inr x \<and> f x = Inl e)"
  by (cases m) simp_all

lemma strip1_fade_Inr: "strip1_fade L C s = Inr s' \<Longrightarrow> \<exists>l. s' = s\<lparr>leds0 := l\<rparr>"
  by (auto simp: strip1_fade_def and_then_eq_Inr simp del: for_leds.simps)

lemma strip2_fade_Inr: "strip2_fade L C s = Inr s' \<Longrightarrow> \<exists>l. s' = s\<lparr>leds1 := l\<rparr>"
  by (auto simp: strip2_fade_def and_then_eq_Inr simp del: for_leds.simps)

lemma strip1_fade_Inl: "strip1_fade L C s = Inl e \<Longrightarrow> e = LedsOutOfBounds"
  by (auto simp: strip1_fade_def and_then_eq_Inl simp del: for_leds.simps dest: for_leds_error)

lemma strip2_fade_Inl: "strip2_fade L C s = Inl e \<Longrightarrow> e = LedsOutOfBounds"
  by (auto simp: strip2_fade_def and_then_eq_Inl simp del: for_leds.simps dest: for_leds_error)

lemma strip1_has_fade_Inl: "strip1_has_fade L C s = Inl e \<Longrightarrow> e = LedsOutOfBounds"
  by (auto simp: strip1_has_fade_def split: if_splits)

lemma strip2_has_fade_Inl: "strip2_has_fade L C s = Inl e \<Longrightarrow> e = LedsOutOfBounds"
  by (auto simp: strip2_has_fade_def split: if_splits)

lemma strip1_set_brightLevel_Inr:
  "strip1_set_brightLevel L C b s = Inr s' \<Longrightarrow>
     \<exists>l. s' = s\<lparr>strip1Color := (strip1Color s)\<lparr>val := ucast b\<rparr>, leds0 := l\<rparr>"
  by (auto simp: strip1_set_brightLevel_def Let_def and_then_eq_Inr simp del: for_leds.simps)

lemma strip2_set_brightLevel_Inr:
  "strip2_set_brightLevel L C b s = Inr s' \<Longrightarrow>
     \<exists>l. s' = s\<lparr>strip2Color := (strip2Color s)\<lparr>val := ucast b\<rparr>, leds1 := l\<rparr>"
  by (auto simp: strip2_set_brightLevel_def Let_def and_then_eq_Inr simp del: for_leds.simps)

lemma strip1_set_brightLevel_Inl: "strip1_set_brightLevel L C b s = Inl e \<Longrightarrow> e = LedsOutOfBounds"
  by (auto simp: strip1_set_brightLevel_def Let_def and_then_eq_Inl simp del: for_leds.simps
      dest: for_leds_error)

lemma strip2_set_brightLevel_Inl: "strip2_set_brightLevel L C b s = Inl e \<Longrightarrow> e = LedsOutOfBounds"
  by (auto simp: strip2_set_brightLevel_def Let_def and_then_eq_Inl simp del: for_leds.simps
      dest: for_leds_error)

lemma cursor_step:
  fixes c :: "16 word"
  assumes "unat c < n" "c + 1 \<noteq> word_of_nat n"
  shows "unat (c + 1) < n"
proof -
  have "unat (c + 1) \<le> unat c + 1"
    by (simp add: unat_word_ariths) 
  moreover have "unat (c + 1) \<noteq> n"
  proof
    assume "unat (c + 1) = n"
    then have "(word_of_nat n :: 16 word) = word_of_nat (unat (c + 1))" by simp
    then have "word_of_nat n = c + 1" by (simp only: of_nat_unat ucast_id)
    then show False using assms(2) by simp
  qed
  ultimately show ?thesis using assms(1) by linarith
qed

lemma strip1_playback_Inr_fields:
  assumes "strip1_playback_readings L C s = Inr s'"
  shows "readings1 s' = readings1 s \<and> readings2 s' = readings2 s \<and>
     strip2activeLedState s' = strip2activeLedState s \<and>
     strip2readingsCounter s' = strip2readingsCounter s \<and>
     (strip1activeLedState s' = 1 \<longrightarrow>
        (strip1activeLedState s = 0 \<and> strip1readingsCounter s' = 0) \<or>
        (strip1activeLedState s = 1 \<and> strip1readingsCounter s' = strip1readingsCounter s \<and>
           unat (strip1readingsCounter s) < length (readings1 s)) \<or>
        (strip1activeLedState s = 1 \<and> strip1readingsCounter s' = strip1readingsCounter s + 1 \<and>
           strip1readingsCounter s' \<noteq> word_of_nat (length (readings1 s))))"
proof -
  consider (fade) "strip1activeLedState s = 0" | (interp) "strip1activeLedState s = 1"
    | (toidle) "strip1activeLedState s = 2"
    | (other) "strip1activeLedState s \<noteq> 0" "strip1activeLedState s \<noteq> 1" "strip1activeLedState s \<noteq> 2"
    by blast
  then show ?thesis
  proof cases
    case fade
    then obtain s1 faded where "strip1_fade L C s = Inr s1" "strip1_has_fade L C s1 = Inr faded"
      "s' = (if faded = True then
               s1\<lparr>strip1activeLedState := 1,
                  strip1bandms := 0,
                  strip1readingsCounter := 0,
                  strip1prevBrightVal := 0,
                  strip1currBrightVal := 0,
                  strip1Color := (strip1Color s1)\<lparr>val := 0\<rparr>\<rparr>
             else s1)"
      using assms by (auto simp: strip1_playback_readings_def and_then_eq_Inr)
    then show ?thesis using fade by (auto dest!: strip1_fade_Inr)
  next
    case interp
    show ?thesis
    proof (cases "int (strip1bandms s) < BAND_DELAY * 2")
      case True
      then have r: "unat (strip1readingsCounter s) < length (readings1 s)"
        using assms interp by (auto simp: strip1_playback_readings_def split: if_splits)
      then show ?thesis
        using assms interp True
        by (auto simp: strip1_playback_readings_def Let_def dest!: strip1_set_brightLevel_Inr
            split: if_splits)
    next
      case False
      then show ?thesis
        using assms interp
        by (auto simp: strip1_playback_readings_def Let_def split: if_splits)
    qed
  next
    case toidle
    then obtain s1 faded where "strip1_fade L C s = Inr s1" "strip1_has_fade L C s1 = Inr faded"
      "s' = (if faded then strip1_go_idle s1 else s1)"
      using assms by (auto simp: strip1_playback_readings_def and_then_eq_Inr)
    then show ?thesis using toidle by (auto simp: strip1_go_idle_def dest!: strip1_fade_Inr)
  next
    case other
    then show ?thesis using assms by (simp add: strip1_playback_readings_def)
  qed
qed

lemma strip2_playback_Inr_fields:
  assumes "strip2_playback_readings L C s = Inr s'"
  shows "readings2 s' = readings2 s \<and> readings1 s' = readings1 s \<and>
     strip1activeLedState s' = strip1activeLedState s \<and>
     strip1readingsCounter s' = strip1readingsCounter s \<and>
     (strip2activeLedState s' = 1 \<longrightarrow>
        (strip2activeLedState s = 0 \<and> strip2readingsCounter s' = 0) \<or>
        (strip2activeLedState s = 1 \<and> strip2readingsCounter s' = strip2readingsCounter s \<and>
           unat (strip2readingsCounter s) < length (readings2 s)) \<or>
        (strip2activeLedState s = 1 \<and> strip2readingsCounter s' = strip2readingsCounter s + 1 \<and>
           strip2readingsCounter s' \<noteq> word_of_nat (length (readings2 s))))"
proof -
  consider (fade) "strip2activeLedState s = 0" | (interp) "strip2activeLedState s = 1"
    | (toidle) "strip2activeLedState s = 2"
    | (other) "strip2activeLedState s \<noteq> 0" "strip2activeLedState s \<noteq> 1" "strip2activeLedState s \<noteq> 2"
    by blast
  then show ?thesis
  proof cases
    case fade
    then obtain s1 faded where "strip2_fade L C s = Inr s1" "strip2_has_fade L C s1 = Inr faded"
      "s' = (if faded = True then
               s1\<lparr>strip2activeLedState := 1,
                  strip2bandms := 0,
                  strip2readingsCounter := 0,
                  strip2prevBrightVal := 0,
                  strip2currBrightVal := 0,
                  strip2Color := (strip2Color s1)\<lparr>val := 0\<rparr>\<rparr>
             else s1)"
      using assms by (auto simp: strip2_playback_readings_def and_then_eq_Inr)
    then show ?thesis using fade by (auto dest!: strip2_fade_Inr)
  next
    case interp
    show ?thesis
    proof (cases "int (strip2bandms s) < BAND_DELAY * 2")
      case True
      then have r: "unat (strip2readingsCounter s) < length (readings2 s)"
        using assms interp by (auto simp: strip2_playback_readings_def split: if_splits)
      then show ?thesis
        using assms interp True
        by (auto simp: strip2_playback_readings_def Let_def dest!: strip2_set_brightLevel_Inr
            split: if_splits)
    next
      case False
      then show ?thesis
        using assms interp
        by (auto simp: strip2_playback_readings_def Let_def split: if_splits)
    qed
  next
    case toidle
    then obtain s1 faded where "strip2_fade L C s = Inr s1" "strip2_has_fade L C s1 = Inr faded"
      "s' = (if faded then strip2_go_idle s1 else s1)"
      using assms by (auto simp: strip2_playback_readings_def and_then_eq_Inr)
    then show ?thesis using toidle by (auto simp: strip2_go_idle_def dest!: strip2_fade_Inr)
  next
    case other
    then show ?thesis using assms by (simp add: strip2_playback_readings_def)
  qed
qed

lemma strip1_playback_keeps_cursor:
  assumes "strip1_playback_readings L C s = Inr s'" "strip1_cursor_ok s"
  shows "strip1_cursor_ok s'" "strip2_cursor_ok s' = strip2_cursor_ok s"
proof -
  note f = strip1_playback_Inr_fields [OF assms(1)]
  show "strip2_cursor_ok s' = strip2_cursor_ok s"
    using f by (simp add: strip2_cursor_ok_def)
  have "unat (strip1readingsCounter s') < length (readings1 s')" if a: "strip1activeLedState s' = 1"
  proof -
    from f a consider
      "strip1readingsCounter s' = 0"
      | "strip1readingsCounter s' = strip1readingsCounter s"
        "unat (strip1readingsCounter s) < length (readings1 s)"
      | "strip1activeLedState s = 1" "strip1readingsCounter s' = strip1readingsCounter s + 1"
        "strip1readingsCounter s' \<noteq> word_of_nat (length (readings1 s))"
      by blast
    then show ?thesis
    proof cases
      case 1
      then show ?thesis using f assms(2) by (simp add: strip1_cursor_ok_def)
    next
      case 2
      then show ?thesis using f by simp
    next
      case 3
      then have "unat (strip1readingsCounter s) < length (readings1 s)"
        using assms(2) by (simp add: strip1_cursor_ok_def)
      from cursor_step [OF this] 3 show ?thesis using f by simp
    qed
  qed
  then show "strip1_cursor_ok s'"
    using f assms(2) by (simp add: strip1_cursor_ok_def)
qed

lemma strip2_playback_keeps_cursor:
  assumes "strip2_playback_readings L C s = Inr s'" "strip2_cursor_ok s"
  shows "strip2_cursor_ok s'" "strip1_cursor_ok s' = strip1_cursor_ok s"
proof -
  note f = strip2_playback_Inr_fields [OF assms(1)]
  show "strip1_cursor_ok s' = strip1_cursor_ok s"
    using f by (simp add: strip1_cursor_ok_def)
  have "unat (strip2readingsCounter s') < length (readings2 s')" if a: "strip2activeLedState s' = 1"
  proof -
    from f a consider
      "strip2readingsCounter s' = 0"
      | "strip2readingsCounter s' = strip2readingsCounter s"
        "unat (strip2readingsCounter s) < length (readings2 s)"
      | "strip2activeLedState s = 1" "strip2readingsCounter s' = strip2readingsCounter s + 1"
        "strip2readingsCounter s' \<noteq> word_of_nat (length (readings2 s))"
      by blast
    then show ?thesis
    proof cases
      case 1
      then show ?thesis using f assms(2) by (simp add: strip2_cursor_ok_def)
    next
      case 2
      then show ?thesis using f by simp
    next
      case 3
      then have "unat (strip2readingsCounter s) < length (readings2 s)"
        using assms(2) by (simp add: strip2_cursor_ok_def)
      from cursor_step [OF this] 3 show ?thesis using f by simp
    qed
  qed
  then show "strip2_cursor_ok s'"
    using f assms(2) by (simp add: strip2_cursor_ok_def)
qed

lemma strip1_playback_Inl:
  assumes "strip1_playback_readings L C s = Inl e" "strip1_cursor_ok s"
  shows "e = LedsOutOfBounds"
  using assms
  by (auto simp: strip1_playback_readings_def strip1_cursor_ok_def and_then_eq_Inl Let_def
      dest: strip1_fade_Inl strip1_has_fade_Inl strip1_set_brightLevel_Inl split: if_splits)

lemma strip2_playback_Inl:
  assumes "strip2_playback_readings L C s = Inl e" "strip2_cursor_ok s"
  shows "e = LedsOutOfBounds"
  using assms
  by (auto simp: strip2_playback_readings_def strip2_cursor_ok_def and_then_eq_Inl Let_def
      dest: strip2_fade_Inl strip2_has_fade_Inl strip2_set_brightLevel_Inl split: if_splits)

lemma strip1_idle_Inr_shape:
  assumes "strip1_idle_animation L C s = Inr s'"
  shows "\<exists>l0 l1 l2. s' =
           s\<lparr>strip1brightness := strip1_get_brightness s (strip1brightness s),
             strip1Color := (strip1Color s)
               \<lparr>val := ucast (strip1_get_brightness s (strip1brightness s))\<rparr>,
             leds0 := l0, leds1 := l1, leds2 := l2,
             strip1isMaxBrightness :=
               (if strip1_get_brightness s (strip1brightness s) = strip1maxBrightLvl s then True
                else if strip1_get_brightness s (strip1brightness s) = 0 then False
                else strip1isMaxBrightness s)\<rparr>"
proof -
  define b where "b = strip1_get_brightness s (strip1brightness s)"
  define s1 where "s1 = s\<lparr>strip1brightness := b,
                 strip1Color := (strip1Color s)\<lparr>val := ucast b\<rparr>\<rparr>"
  define px where "px = hsv2rgb L (strip1Color s1)"
  define X where "X = (if SCULPTURE_ID C = 1 then
              and_then (for_leds 0 (BAND1_1 C) (\<lambda>p. px) (leds0 s1)) (\<lambda>l0.
              and_then (for_leds 0 (BAND1_2 C) (\<lambda>p. px) (leds1 s1)) (\<lambda>l1.
              and_then (for_leds 0 (BAND1_3 C) (\<lambda>p. px) (leds2 s1)) (\<lambda>l2.
              Inr (s1\<lparr>leds0 := l0, leds1 := l1, leds2 := l2\<rparr>))))
            else
              and_then (for_leds 0 (BAND1 C) (\<lambda>p. px) (leds0 s1)) (\<lambda>l0.
              Inr (s1\<lparr>leds0 := l0\<rparr>)))"
  have d: "strip1_idle_animation L C s =
      and_then X (\<lambda>s2. Inr (if b = strip1maxBrightLvl s2
                        then s2\<lparr>strip1isMaxBrightness := True\<rparr>
                      else if b = 0
                        then s2\<lparr>strip1isMaxBrightness := False\<rparr>
                      else s2))"
    unfolding strip1_idle_animation_def Let_def X_def px_def s1_def b_def ..
  from assms obtain s2 where s2: "X = Inr s2"
    and s': "s' = (if b = strip1maxBrightLvl s2
                        then s2\<lparr>strip1isMaxBrightness := True\<rparr>
                      else if b = 0
                        then s2\<lparr>strip1isMaxBrightness := False\<rparr>
                      else s2)"
    unfolding d and_then_eq_Inr by blast
  have "\<exists>l0 l1 l2. s2 = s1\<lparr>leds0 := l0, leds1 := l1, leds2 := l2\<rparr>"
  proof (cases "SCULPTURE_ID C = 1")
    case True
    with s2 have "\<exists>l0. for_leds 0 (BAND1_1 C) (\<lambda>p. px) (leds0 s1) = Inr l0 \<and>
        (\<exists>l1. for_leds 0 (BAND1_2 C) (\<lambda>p. px) (leds1 s1) = Inr l1 \<and>
        (\<exists>l2. for_leds 0 (BAND1_3 C) (\<lambda>p. px) (leds2 s1) = Inr l2 \<and>
           s1\<lparr>leds0 := l0, leds1 := l1, leds2 := l2\<rparr> = s2))"
      unfolding X_def by (simp add: and_then_eq_Inr del: for_leds.simps)
    then show ?thesis by blast
  next
    case False
    with s2 have "\<exists>l0. for_leds 0 (BAND1 C) (\<lambda>p. px) (leds0 s1) = Inr l0 \<and>
        s1\<lparr>leds0 := l0\<rparr> = s2"
      unfolding X_def by (simp add: and_then_eq_Inr del: for_leds.simps)
    then obtain l0 where "s2 = s1\<lparr>leds0 := l0\<rparr>" by blast
    then have "s2 = s1\<lparr>leds0 := l0, leds1 := leds1 s1, leds2 := leds2 s1\<rparr>" by simp
    then show ?thesis by blast
  qed
  then obtain l0 l1 l2 where l: "s2 = s1\<lparr>leds0 := l0, leds1 := l1, leds2 := l2\<rparr>" by blast
  have "s' = s\<lparr>strip1brightness := b, strip1Color := (strip1Color s)\<lparr>val := ucast b\<rparr>,
            leds0 := l0, leds1 := l1, leds2 := l2,
            strip1isMaxBrightness := (if b = strip1maxBrightLvl s then True
               else if b = 0 then False else strip1isMaxBrightness s)\<rparr>"
    unfolding s' l s1_def by simp
  then show ?thesis unfolding b_def by blast
qed

lemma strip1_idle_keeps_cursor:
  assumes "strip1_idle_animation L C s = Inr s'"
  shows "strip1_cursor_ok s' = strip1_cursor_ok s" "strip2_cursor_ok s' = strip2_cursor_ok s"
proof -
  from strip1_idle_Inr_shape [OF assms] obtain l0 l1 l2 c b f where
    "s' = s\<lparr>strip1brightness := b, strip1Color := c, leds0 := l0, leds1 := l1,
            leds2 := l2, strip1isMaxBrightness := f\<rparr>"
    by metis
  then show "strip1_cursor_ok s' = strip1_cursor_ok s" "strip2_cursor_ok s' = strip2_cursor_ok s"
    by (simp_all add: strip1_cursor_ok_def strip2_cursor_ok_def)
qed


lemma strip2_idle_Inr_shape:
  assumes "strip2_idle_animation L C s = Inr s'"
  shows "\<exists>l1 l3. s' =
           s\<lparr>strip2brightness := strip2_get_brightness s (strip2brightness s),
             strip2Color := (strip2Color s)
               \<lparr>val := ucast (strip2_get_brightness s (strip2brightness s))\<rparr>,
             leds1 := l1, leds3 := l3,
             strip2isMaxBrightness :=
               (if strip2_get_brightness s (strip2brightness s) = strip2maxBrightLvl s then True
                else if strip2_get_brightness s (strip2brightness s) = 0 then False
                else strip2isMaxBrightness s)\<rparr>"
proof -
  define b where "b = strip2_get_brightness s (strip2brightness s)"
  define s1 where "s1 = s\<lparr>strip2brightness := b,
                 strip2Color := (strip2Color s)\<lparr>val := ucast b\<rparr>\<rparr>"
  define X where "X = (if SCULPTURE_ID C = 1 then
              and_then (for_leds 0 (BAND2 C) (\<lambda>p. hsv2rgb L (strip1Color s1)) (leds3 s1)) (\<lambda>l3.
              Inr (s1\<lparr>leds3 := l3\<rparr>))
            else
              and_then (for_leds 0 (BAND2 C) (\<lambda>p. hsv2rgb L (strip2Color s1)) (leds1 s1)) (\<lambda>l1.
              Inr (s1\<lparr>leds1 := l1\<rparr>)))"
  have d: "strip2_idle_animation L C s =
      and_then X (\<lambda>s2. Inr (if b = strip2maxBrightLvl s2
                        then s2\<lparr>strip2isMaxBrightness := True\<rparr>
                      else if b = 0
                        then s2\<lparr>strip2isMaxBrightness := False\<rparr>
                      else s2))"
    unfolding strip2_idle_animation_def Let_def X_def s1_def b_def ..
  from assms obtain s2 where s2: "X = Inr s2"
    and s': "s' = (if b = strip2maxBrightLvl s2
                        then s2\<lparr>strip2isMaxBrightness := True\<rparr>
                      else if b = 0
                        then s2\<lparr>strip2isMaxBrightness := False\<rparr>
                      else s2)"
    unfolding d and_then_eq_Inr by blast
  have "\<exists>l1 l3. s2 = s1\<lparr>leds1 := l1, leds3 := l3\<rparr>"
  proof (cases "SCULPTURE_ID C = 1")
    case True
    with s2 have "\<exists>l3. for_leds 0 (BAND2 C) (\<lambda>p. hsv2rgb L (strip1Color s1)) (leds3 s1) = Inr l3 \<and>
        s1\<lparr>leds3 := l3\<rparr> = s2"
      unfolding X_def by (simp add: and_then_eq_Inr del: for_leds.simps)
    then obtain l3 where "s2 = s1\<lparr>leds3 := l3\<rparr>" by blast
    then have "s2 = s1\<lparr>leds1 := leds1 s1, leds3 := l3\<rparr>" by simp
    then show ?thesis by blast
  next
    case False
    with s2 have "\<exists>l1. for_leds 0 (BAND2 C) (\<lambda>p. hsv2rgb L (strip2Color s1)) (leds1 s1) = Inr l1 \<and>
        s1\<lparr>leds1 := l1\<rparr> = s2"
      unfolding X_def by (simp add: and_then_eq_Inr del: for_leds.simps)
    then obtain l1 where "s2 = s1\<lparr>leds1 := l1\<rparr>" by blast
    then have "s2 = s1\<lparr>leds1 := l1, leds3 := leds3 s1\<rparr>" by simp
    then show ?thesis by blast
  qed
  then obtain l1 l3 where l: "s2 = s1\<lparr>leds1 := l1, leds3 := l3\<rparr>" by blast
  have "s' = s\<lparr>strip2brightness := b, strip2Color := (strip2Color s)\<lparr>val := ucast b\<rparr>,
            leds1 := l1, leds3 := l3,
            strip2isMaxBrightness := (if b = strip2maxBrightLvl s then True
               else if b = 0 then False else strip2isMaxBrightness s)\<rparr>"
    unfolding s' l s1_def by simp
  then show ?thesis unfolding b_def by blast
qed

lemma strip2_idle_keeps_cursor:
  assumes "strip2_idle_animation L C s = Inr s'"
  shows "strip1_cursor_ok s' = strip1_cursor_ok s" "strip2_cursor_ok s' = strip2_cursor_ok s"
proof -
  from strip2_idle_Inr_shape [OF assms] obtain l1 l3 c b f where
    "s' = s\<lparr>strip2brightness := b, strip2Color := c, leds1 := l1,
            leds3 := l3, strip2isMaxBrightness := f\<rparr>"
    by metis
  then show "strip1_cursor_ok s' = strip1_cursor_ok s" "strip2_cursor_ok s' = strip2_cursor_ok s"
    by (simp_all add: strip1_cursor_ok_def strip2_cursor_ok_def)
qed

lemma strip1_idle_Inl:
  assumes "strip1_idle_animation L C s = Inl e"
  shows "e = LedsOutOfBounds"
proof (cases "SCULPTURE_ID C = 1")
  case True
  with assms show ?thesis
    unfolding strip1_idle_animation_def Let_def
    by (simp add: and_then_eq_Inl del: for_leds.simps) (blast dest: for_leds_error)
next
  case False
  with assms show ?thesis
    unfolding strip1_idle_animation_def Let_def
    by (simp add: and_then_eq_Inl del: for_leds.simps) (blast dest: for_leds_error)
qed

lemma strip2_idle_Inl:
  assumes "strip2_idle_animation L C s = Inl e"
  shows "e = LedsOutOfBounds"
proof (cases "SCULPTURE_ID C = 1")
  case True
  with assms show ?thesis
    unfolding strip2_idle_animation_def Let_def
    by (simp add: and_then_eq_Inl del: for_leds.simps) (blast dest: for_leds_error)
next
  case False
  with assms show ?thesis
    unfolding strip2_idle_animation_def Let_def
    by (simp add: and_then_eq_Inl del: for_leds.simps) (blast dest: for_leds_error)
qed

lemma pure_steps_keep_cursor:
  "strip1_cursor_ok (read_console inp s) = strip1_cursor_ok s"
  "strip2_cursor_ok (read_console inp s) = strip2_cursor_ok s"
  "strip1_cursor_ok (do_colour_variation s) = strip1_cursor_ok s"
  "strip2_cursor_ok (do_colour_variation s) = strip2_cursor_ok s"
  "strip1_cursor_ok (pass_time ms s) = strip1_cursor_ok s"
  "strip2_cursor_ok (pass_time ms s) = strip2_cursor_ok s"
  by (simp_all add: strip1_cursor_ok_def strip2_cursor_ok_def read_console_def
        do_colour_variation_def pass_time_def Let_def)

lemma set_playMode_keeps_cursor:
  "strip1_cursor_ok s \<Longrightarrow> strip1_cursor_ok (set_playMode s)"
  "strip2_cursor_ok s \<Longrightarrow> strip2_cursor_ok (set_playMode s)"
  by (simp_all add: strip1_cursor_ok_def strip2_cursor_ok_def set_playMode_def Let_def)

lemma add_glitter_shape:
  "\<exists>l0 l1 l2 l3. add_glitter gs s = s\<lparr>leds0 := l0, leds1 := l1, leds2 := l2, leds3 := l3\<rparr>"
proof (induction gs arbitrary: s)
  case Nil
  have "s = s\<lparr>leds0 := leds0 s, leds1 := leds1 s, leds2 := leds2 s, leds3 := leds3 s\<rparr>"
    by simp
  then show ?case by (simp only: add_glitter.simps) blast
next
  case (Cons g gs)
  obtain a i p where g: "g = (a, i, p)" by (cases g) auto
  define t where "t = (if a = 0 then s\<lparr>leds0 := (leds0 s)[i := p]\<rparr>
        else if a = 1 then s\<lparr>leds1 := (leds1 s)[i := p]\<rparr>
        else if a = 2 then s\<lparr>leds2 := (leds2 s)[i := p]\<rparr>
        else if a = 3 then s\<lparr>leds3 := (leds3 s)[i := p]\<rparr>
        else s)"
  have t: "\<exists>l0 l1 l2 l3. t = s\<lparr>leds0 := l0, leds1 := l1, leds2 := l2, leds3 := l3\<rparr>"
  proof -
    have "t = s\<lparr>leds0 := leds0 t, leds1 := leds1 t, leds2 := leds2 t, leds3 := leds3 t\<rparr>"
      by (simp add: t_def)
    then show ?thesis by blast
  qed
  from Cons.IH [of t] obtain l0 l1 l2 l3 where
    "add_glitter gs t = t\<lparr>leds0 := l0, leds1 := l1, leds2 := l2, leds3 := l3\<rparr>" by blast
  moreover from t obtain k0 k1 k2 k3 where
    "t = s\<lparr>leds0 := k0, leds1 := k1, leds2 := k2, leds3 := k3\<rparr>" by blast
  ultimately have "add_glitter gs t = s\<lparr>leds0 := l0, leds1 := l1, leds2 := l2, leds3 := l3\<rparr>"
    by simp
  moreover have "add_glitter (g # gs) s = add_glitter gs t"
    by (simp add: g t_def)
  ultimately show ?case by (simp only:) blast
qed

lemma add_glitter_keeps_cursor:
  "strip1_cursor_ok (add_glitter gs s) = strip1_cursor_ok s"
  "strip2_cursor_ok (add_glitter gs s) = strip2_cursor_ok s"
proof -
  from add_glitter_shape [of gs s] obtain l0 l1 l2 l3 where
    "add_glitter gs s = s\<lparr>leds0 := l0, leds1 := l1, leds2 := l2, leds3 := l3\<rparr>" by blast
  then show "strip1_cursor_ok (add_glitter gs s) = strip1_cursor_ok s"
    "strip2_cursor_ok (add_glitter gs s) = strip2_cursor_ok s"
    by (simp_all add: strip1_cursor_ok_def strip2_cursor_ok_def)
qed

lemma loop_unfold:
  "loop L C inp s =
     and_then
       (if strip1playMode (set_playMode (do_colour_variation (read_console inp s))) = IDLE_MODE
        then strip1_idle_animation L C (set_playMode (do_colour_variation (read_console inp s)))
        else if strip1playMode (set_playMode (do_colour_variation (read_console inp s))) = BUTTON_MODE
        then strip1_playback_readings L C (set_playMode (do_colour_variation (read_console inp s)))
        else Inr (set_playMode (do_colour_variation (read_console inp s))))
       (\<lambda>s2. and_then
           (if strip2playMode s2 = IDLE_MODE then strip2_idle_animation L C s2
            else if strip2playMode s2 = BUTTON_MODE then strip2_playback_readings L C s2
            else Inr s2)
           (\<lambda>s3. Inr (pass_time (elapsed inp) (add_glitter (glitter inp) s3))))"
  unfolding loop_def Let_def ..

lemma strip1_branch_keeps_cursor:
  assumes "(if strip1playMode s = IDLE_MODE then strip1_idle_animation L C s
            else if strip1playMode s = BUTTON_MODE then strip1_playback_readings L C s
            else Inr s) = Inr s'" "strip1_cursor_ok s" "strip2_cursor_ok s"
  shows "strip1_cursor_ok s' \<and> strip2_cursor_ok s'"
proof (cases "strip1playMode s = IDLE_MODE")
  case True
  then show ?thesis using assms strip1_idle_keeps_cursor [of L C s s'] by simp
next
  case False
  show ?thesis
  proof (cases "strip1playMode s = BUTTON_MODE")
    case True
    then show ?thesis
      using assms False strip1_playback_keeps_cursor [of L C s s'] by simp
  next
    case b: False
    then show ?thesis using assms False by simp
  qed
qed

lemma strip2_branch_keeps_cursor:
  assumes "(if strip2playMode s = IDLE_MODE then strip2_idle_animation L C s
            else if strip2playMode s = BUTTON_MODE then strip2_playback_readings L C s
            else Inr s) = Inr s'" "strip1_cursor_ok s" "strip2_cursor_ok s"
  shows "strip1_cursor_ok s' \<and> strip2_cursor_ok s'"
proof (cases "strip2playMode s = IDLE_MODE")
  case True
  then show ?thesis using assms strip2_idle_keeps_cursor [of L C s s'] by simp
next
  case False
  show ?thesis
  proof (cases "strip2playMode s = BUTTON_MODE")
    case True
    then show ?thesis
      using assms False strip2_playback_keeps_cursor [of L C s s'] by simp
  next
    case b: False
    then show ?thesis using assms False by simp
  qed
qed

lemma strip1_branch_Inl:
  assumes "(if strip1playMode s = IDLE_MODE then strip1_idle_animation L C s
            else if strip1playMode s = BUTTON_MODE then strip1_playback_readings L C s
            else Inr s) = Inl e" "strip1_cursor_ok s"
  shows "e = LedsOutOfBounds"
  using assms strip1_idle_Inl [of L C s e] strip1_playback_Inl [of L C s e]
  by (simp split: if_splits)

lemma strip2_branch_Inl:
  assumes "(if strip2playMode s = IDLE_MODE then strip2_idle_animation L C s
            else if strip2playMode s = BUTTON_MODE then strip2_playback_readings L C s
            else Inr s) = Inl e" "strip2_cursor_ok s"
  shows "e = LedsOutOfBounds"
  using assms strip2_idle_Inl [of L C s e] strip2_playback_Inl [of L C s e]
  by (simp split: if_splits)

lemma inputs_keep_cursor:
  assumes "strip1_cursor_ok s" "strip2_cursor_ok s"
  shows "strip1_cursor_ok (set_playMode (do_colour_variation (read_console inp s)))"
    "strip2_cursor_ok (set_playMode (do_colour_variation (read_console inp s)))"
  using assms by (simp_all add: set_playMode_keeps_cursor pure_steps_keep_cursor)

lemma loop_keeps_cursor:
  assumes "loop L C inp s = Inr s'" "strip1_cursor_ok s" "strip2_cursor_ok s"
  shows "strip1_cursor_ok s' \<and> strip2_cursor_ok s'"
proof -
  let ?s1 = "set_playMode (do_colour_variation (read_console inp s))"
  from assms(1) obtain s2 s3 where
    a: "(if strip1playMode ?s1 = IDLE_MODE then strip1_idle_animation L C ?s1
         else if strip1playMode ?s1 = BUTTON_MODE then strip1_playback_readings L C ?s1
         else Inr ?s1) = Inr s2"
    and b: "(if strip2playMode s2 = IDLE_MODE then strip2_idle_animation L C s2
            else if strip2playMode s2 = BUTTON_MODE then strip2_playback_readings L C s2
            else Inr s2) = Inr s3"
    and c: "s' = pass_time (elapsed inp) (add_glitter (glitter inp) s3)"
    unfolding loop_unfold and_then_eq_Inr by blast
  from strip1_branch_keeps_cursor [OF a inputs_keep_cursor [OF assms(2,3)]]
  have "strip1_cursor_ok s2 \<and> strip2_cursor_ok s2" .
  with strip2_branch_keeps_cursor [OF b] have "strip1_cursor_ok s3 \<and> strip2_cursor_ok s3" by blast
  then show ?thesis
    unfolding c by (simp add: pure_steps_keep_cursor add_glitter_keeps_cursor)
qed

lemma loop_Inl:
  assumes "loop L C inp s = Inl e" "strip1_cursor_ok s" "strip2_cursor_ok s"
  shows "e = LedsOutOfBounds"
proof -
  let ?s1 = "set_playMode (do_colour_variation (read_console inp s))"
  let ?A = "(if strip1playMode ?s1 = IDLE_MODE then strip1_idle_animation L C ?s1
         else if strip1playMode ?s1 = BUTTON_MODE then strip1_playback_readings L C ?s1
         else Inr ?s1)"
  from assms(1) consider (first) "?A = Inl e"
    | (second) s2 where "?A = Inr s2"
        "(if strip2playMode s2 = IDLE_MODE then strip2_idle_animation L C s2
            else if strip2playMode s2 = BUTTON_MODE then strip2_playback_readings L C s2
            else Inr s2) = Inl e"
    unfolding loop_unfold and_then_eq_Inl by auto
  then show ?thesis
  proof cases
    case first
    then show ?thesis
      by (rule strip1_branch_Inl) (rule inputs_keep_cursor [OF assms(2,3)])
  next
    case second
    from strip1_branch_keeps_cursor [OF second(1) inputs_keep_cursor [OF assms(2,3)]]
    have "strip2_cursor_ok s2" by simp
    with second(2) show ?thesis by (rule strip2_branch_Inl)
  qed
qed

lemma setup_cursor_ok: "strip1_cursor_ok (arduino_setup C t) \<and> strip2_cursor_ok (arduino_setup C t)"
  by (simp add: arduino_setup_def register_readings_def pass_time_def initial_state_def
        strip1_cursor_ok_def strip2_cursor_ok_def translate_def
        CO2_1_def CO2_2_def PM25_1_def PM25_2_def VOC_1_def VOC_2_def)

lemma reachable_cursor_ok:
  "reachable L C s \<Longrightarrow> strip1_cursor_ok s \<and> strip2_cursor_ok s"
proof (induction rule: reachable.induct)
  case (reachable_setup boot_ms)
  show ?case by (rule setup_cursor_ok)
next
  case (reachable_loop s inp s')
  then show ?case using loop_keeps_cursor by blast
qed

lemma last_cursor_advances:
  fixes c :: "16 word"
  assumes "0 < n" "unat c = n - 1"
  shows "c + 1 = word_of_nat n"
proof -
  have "n = unat c + 1" using assms by simp
  then have "(word_of_nat n :: 16 word) = word_of_nat (unat c) + 1" by simp
  then show ?thesis by (simp only: of_nat_unat ucast_id)
qed

lemma strip1_last_reading_done:
  assumes "strip1activeLedState s = 1" "\<not> int (strip1bandms s) < BAND_DELAY * 2"
    "0 < length (readings1 s)" "unat (strip1readingsCounter s) = length (readings1 s) - 1"
  shows "strip1_playback_readings L C s =
           Inr (s\<lparr>strip1prevBrightVal := strip1currBrightVal s,
                  strip1readingsCounter := strip1readingsCounter s + 1,
                  strip1bandms := 0, strip1activeLedState := 2\<rparr>)"
  using assms last_cursor_advances [OF assms(3,4)]
  by (simp add: strip1_playback_readings_def Let_def)

lemma strip2_last_reading_done:
  assumes "strip2activeLedState s = 1" "\<not> int (strip2bandms s) < BAND_DELAY * 2"
    "0 < length (readings2 s)" "unat (strip2readingsCounter s) = length (readings2 s) - 1"
  shows "strip2_playback_readings L C s =
           Inr (s\<lparr>strip2prevBrightVal := strip2currBrightVal s,
                  strip2readingsCounter := strip2readingsCounter s + 1,
                  strip2bandms := 0, strip2activeLedState := 2\<rparr>)"
  using assms last_cursor_advances [OF assms(3,4)]
  by (simp add: strip2_playback_readings_def Let_def)

lemma pm25_setup_leds:
  "leds0 (arduino_setup pm25_build t) = replicate 55 \<lparr>red = 0, green = 0, blue = 0\<rparr>"
  "leds1 (arduino_setup pm25_build t) = replicate 55 \<lparr>red = 0, green = 0, blue = 0\<rparr>"
  by (simp_all add: arduino_setup_def register_readings_def pm25_build_def pass_time_def
        initial_state_def PM25band1_def PM25band2_def)

lemma pm25_press_inputs:
  "set_playMode (do_colour_variation (read_console pm25_press (arduino_setup pm25_build 2010))) =
     (arduino_setup pm25_build 2010)
       \<lparr>isButton0Pressed := False, isButton1Pressed := False,
        rangeVal := 300, loxmsec := 0, isUserPresent := True,
        strip1Color := cblue\<lparr>hue := 152\<rparr>, strip2Color := cblue\<lparr>hue := 152\<rparr>,
        strip1playMode := BUTTON_MODE, strip2playMode := BUTTON_MODE,
        strip1hasPlayModeChanged := True, strip2hasPlayModeChanged := True,
        strip1activeLedState := 0, strip2activeLedState := 0,
        strip1bandDelay := 125, strip2bandDelay := 125\<rparr>"
  by (simp add: set_playMode_def do_colour_variation_def read_console_def pm25_press_def
        arduino_setup_def register_readings_def pass_time_def initial_state_def pm25_build_def
        Let_def arduino_map_def long_def signed_divide_int_def BAND_DELAY_def cblue_def)


lemma pm25_press_fields: "glitter pm25_press = []" "elapsed pm25_press = 10"
  by (simp_all add: pm25_press_def)

lemma pm25_press_frame:
  "\<exists>s'. loop grey_fastled pm25_build pm25_press (arduino_setup pm25_build 2010) = Inr s' \<and>
     strip1activeLedState s' = 1 \<and> strip2activeLedState s' = 1 \<and>
     strip1readingsCounter s' = 0 \<and> strip2readingsCounter s' = 0 \<and>
     strip1playMode s' = BUTTON_MODE \<and> strip2playMode s' = BUTTON_MODE"
  unfolding loop_unfold pm25_press_inputs pm25_press_fields
  by (simp add: strip1_playback_readings_def
        strip2_playback_readings_def strip1_fade_def strip2_fade_def strip1_has_fade_def
        strip2_has_fade_def for_leds_all pm25_setup_leds pm25_bands grey_fastled_def
        BUTTON_MODE_def IDLE_MODE_def pass_time_def
        del: for_leds.simps)


lemma pm25_playing_cursor:
  "cursor < 65536 \<Longrightarrow> unat (strip1readingsCounter (pm25_playing cursor previous v ms)) = cursor"
  "cursor < 65536 \<Longrightarrow> unat (strip2readingsCounter (pm25_playing cursor previous v ms)) = cursor"
  "length (readings1 (pm25_playing cursor previous v ms)) = 20"
  "length (readings2 (pm25_playing cursor previous v ms)) = 32"
  by (simp_all add: pm25_playing_def pm25_readings1 pm25_readings2 unat_of_nat)

text \<open>
  Claim C4. In the interpolating phase, with the cursor on the last element of the
  sequence, the call that finds the dwell window elapsed moves the strip to phase 2
  (fade to idle). In every state the firmware reaches from \<^verbatim>\<open>setup()\<close>, whatever the inputs
  of the frames, a strip in the interpolating phase has its cursor inside the sequence, so
  neither playback function nor the next pass of \<^verbatim>\<open>loop()\<close> reads \<^verbatim>\<open>readings1\<close> or
  \<^verbatim>\<open>readings2\<close> out of range. This holds for both strips.
\<close>

theorem cursor_never_out_of_range:
  "(strip1activeLedState s = 1 \<and> \<not> int (strip1bandms s) < BAND_DELAY * 2 \<and>
    0 < length (readings1 s) \<and> unat (strip1readingsCounter s) = length (readings1 s) - 1 \<longrightarrow>
      (\<exists>s'. strip1_playback_readings L C s = Inr s' \<and> strip1activeLedState s' = 2)) \<and>
   (strip2activeLedState s = 1 \<and> \<not> int (strip2bandms s) < BAND_DELAY * 2 \<and>
    0 < length (readings2 s) \<and> unat (strip2readingsCounter s) = length (readings2 s) - 1 \<longrightarrow>
      (\<exists>s'. strip2_playback_readings L C s = Inr s' \<and> strip2activeLedState s' = 2)) \<and>
   (reachable L C s \<longrightarrow>
      (strip1activeLedState s = 1 \<longrightarrow> unat (strip1readingsCounter s) < length (readings1 s)) \<and>
      (strip2activeLedState s = 1 \<longrightarrow> unat (strip2readingsCounter s) < length (readings2 s)) \<and>
      strip1_playback_readings L C s \<noteq> Inl ReadingsOutOfBounds \<and>
      strip2_playback_readings L C s \<noteq> Inl ReadingsOutOfBounds \<and>
      loop L C inp s \<noteq> Inl ReadingsOutOfBounds)"
proof (intro conjI impI)
  assume "strip1activeLedState s = 1 \<and> \<not> int (strip1bandms s) < BAND_DELAY * 2 \<and>
    0 < length (readings1 s) \<and> unat (strip1readingsCounter s) = length (readings1 s) - 1"
  then show "\<exists>s'. strip1_playback_readings L C s = Inr s' \<and> strip1activeLedState s' = 2"
    by (simp add: strip1_last_reading_done)
next
  assume "strip2activeLedState s = 1 \<and> \<not> int (strip2bandms s) < BAND_DELAY * 2 \<and>
    0 < length (readings2 s) \<and> unat (strip2readingsCounter s) = length (readings2 s) - 1"
  then show "\<exists>s'. strip2_playback_readings L C s = Inr s' \<and> strip2activeLedState s' = 2"
    by (simp add: strip2_last_reading_done)
next
  assume r: "reachable L C s"
  note ok = reachable_cursor_ok [OF r]
  { assume "strip1activeLedState s = 1"
    then show "unat (strip1readingsCounter s) < length (readings1 s)"
      using ok by (simp add: strip1_cursor_ok_def) }
  { assume "strip2activeLedState s = 1"
    then show "unat (strip2readingsCounter s) < length (readings2 s)"
      using ok by (simp add: strip2_cursor_ok_def) }
  show "strip1_playback_readings L C s \<noteq> Inl ReadingsOutOfBounds"
    using strip1_playback_Inl [of L C s ReadingsOutOfBounds] ok by auto
  show "strip2_playback_readings L C s \<noteq> Inl ReadingsOutOfBounds"
    using strip2_playback_Inl [of L C s ReadingsOutOfBounds] ok by auto
  show "loop L C inp s \<noteq> Inl ReadingsOutOfBounds"
    using loop_Inl [of L C inp s ReadingsOutOfBounds] ok by auto
qed

text \<open>
  The last frame of the last dwell window of each strip of the PM2.5 build, and the state
  reached from \<^verbatim>\<open>setup()\<close> by one frame with both buttons pressed, which has both strips
  in the interpolating phase.
\<close>

theorem cursor_never_out_of_range_witness:
  "(strip1activeLedState (pm25_playing 19 134 130 1000) = 1 \<and>
    \<not> int (strip1bandms (pm25_playing 19 134 130 1000)) < BAND_DELAY * 2 \<and>
    0 < length (readings1 (pm25_playing 19 134 130 1000)) \<and>
    unat (strip1readingsCounter (pm25_playing 19 134 130 1000))
      = length (readings1 (pm25_playing 19 134 130 1000)) - 1) \<and>
   (\<exists>s'. strip1_playback_readings grey_fastled pm25_build (pm25_playing 19 134 130 1000) = Inr s' \<and>
      strip1activeLedState s' = 2) \<and>
   (strip2activeLedState (pm25_playing 31 51 50 1000) = 1 \<and>
    \<not> int (strip2bandms (pm25_playing 31 51 50 1000)) < BAND_DELAY * 2 \<and>
    0 < length (readings2 (pm25_playing 31 51 50 1000)) \<and>
    unat (strip2readingsCounter (pm25_playing 31 51 50 1000))
      = length (readings2 (pm25_playing 31 51 50 1000)) - 1) \<and>
   (\<exists>s'. strip2_playback_readings grey_fastled pm25_build (pm25_playing 31 51 50 1000) = Inr s' \<and>
      strip2activeLedState s' = 2) \<and>
   (\<exists>s'. loop grey_fastled pm25_build pm25_press (arduino_setup pm25_build 2010) = Inr s' \<and>
      reachable grey_fastled pm25_build s' \<and>
      strip1activeLedState s' = 1 \<and> unat (strip1readingsCounter s') < length (readings1 s') \<and>
      strip2activeLedState s' = 1 \<and> unat (strip2readingsCounter s') < length (readings2 s') \<and>
      strip1_playback_readings grey_fastled pm25_build s' \<noteq> Inl ReadingsOutOfBounds \<and>
      loop grey_fastled pm25_build pm25_press s' \<noteq> Inl ReadingsOutOfBounds)"
proof -
  from pm25_press_frame obtain s1 where
    s1: "loop grey_fastled pm25_build pm25_press (arduino_setup pm25_build 2010) = Inr s1"
      "strip1activeLedState s1 = 1" "strip2activeLedState s1 = 1"
    by blast
  have r: "reachable grey_fastled pm25_build s1"
    by (rule reachable_loop [OF reachable_setup s1(1)])
  have a: "strip1activeLedState (pm25_playing 19 134 130 1000) = 1 \<and>
    \<not> int (strip1bandms (pm25_playing 19 134 130 1000)) < BAND_DELAY * 2 \<and>
    0 < length (readings1 (pm25_playing 19 134 130 1000)) \<and>
    unat (strip1readingsCounter (pm25_playing 19 134 130 1000))
      = length (readings1 (pm25_playing 19 134 130 1000)) - 1"
    by (simp add: pm25_playing_fields pm25_playing_cursor BAND_DELAY_def)
  have b: "strip2activeLedState (pm25_playing 31 51 50 1000) = 1 \<and>
    \<not> int (strip2bandms (pm25_playing 31 51 50 1000)) < BAND_DELAY * 2 \<and>
    0 < length (readings2 (pm25_playing 31 51 50 1000)) \<and>
    unat (strip2readingsCounter (pm25_playing 31 51 50 1000))
      = length (readings2 (pm25_playing 31 51 50 1000)) - 1"
    by (simp add: pm25_playing_fields pm25_playing_cursor BAND_DELAY_def)
  note t1 = cursor_never_out_of_range [of "pm25_playing 19 134 130 1000" grey_fastled
      pm25_build pm25_press, THEN conjunct1, rule_format, OF a]
  note t2 = cursor_never_out_of_range [of "pm25_playing 31 51 50 1000" grey_fastled
      pm25_build pm25_press, THEN conjunct2, THEN conjunct1, rule_format, OF b]
  note t3 = cursor_never_out_of_range [of s1 grey_fastled pm25_build pm25_press,
      THEN conjunct2, THEN conjunct2, rule_format, OF r]
  have c: "\<exists>s'. loop grey_fastled pm25_build pm25_press (arduino_setup pm25_build 2010) = Inr s' \<and>
      reachable grey_fastled pm25_build s' \<and>
      strip1activeLedState s' = 1 \<and> unat (strip1readingsCounter s') < length (readings1 s') \<and>
      strip2activeLedState s' = 1 \<and> unat (strip2readingsCounter s') < length (readings2 s') \<and>
      strip1_playback_readings grey_fastled pm25_build s' \<noteq> Inl ReadingsOutOfBounds \<and>
      loop grey_fastled pm25_build pm25_press s' \<noteq> Inl ReadingsOutOfBounds"
    using t3 r s1 by (intro exI [of _ s1]) simp
  show ?thesis
    by (intro conjI a [THEN conjunct1] t1 t2 c) (use a b in simp_all)
qed

section \<open>The idle ping-pong\<close>

lemma sint16_succ: "sint (w :: 16 word) < 32767 \<Longrightarrow> sint (w + 1) = sint w + 1"
proof -
  assume a: "sint w < 32767"
  have b: "- 32768 \<le> sint w" using sint_ge [of w] by simp
  have "sint (w + 1) = signed_take_bit 15 (sint w + 1)"
    by (simp add: sint_word_ariths)
  also have "\<dots> = sint w + 1"
    using a b by (intro signed_take_bit_int_eq_self) simp_all
  finally show ?thesis .
qed

lemma sint16_pred: "- 32768 < sint (w :: 16 word) \<Longrightarrow> sint (w - 1) = sint w - 1"
proof -
  assume a: "- 32768 < sint w"
  have b: "sint w < 32768" using sint_lt [of w] by simp
  have "sint (w - 1) = signed_take_bit 15 (sint w - 1)"
    by (simp add: sint_word_ariths)
  also have "\<dots> = sint w - 1"
    using a b by (intro signed_take_bit_int_eq_self) simp_all
  finally show ?thesis .
qed

lemma strip1_idle_frame:
  assumes "strip1_idle_in_bounds C s"
  shows "\<exists>s'. strip1_idle_animation L C s = Inr s' \<and>
           strip1brightness s' = strip1_get_brightness s (strip1brightness s) \<and>
           strip1isMaxBrightness s' =
             (if strip1brightness s' = strip1maxBrightLvl s then True
              else if strip1brightness s' = 0 then False else strip1isMaxBrightness s) \<and>
           strip1maxBrightLvl s' = strip1maxBrightLvl s \<and>
           strip1_idle_in_bounds C s'"
  using assms
  by (simp add: strip1_idle_animation_def strip1_idle_in_bounds_def Let_def for_leds_all
        del: for_leds.simps)

lemma strip2_idle_frame:
  assumes "strip2_idle_in_bounds C s"
  shows "\<exists>s'. strip2_idle_animation L C s = Inr s' \<and>
           strip2brightness s' = strip2_get_brightness s (strip2brightness s) \<and>
           strip2isMaxBrightness s' =
             (if strip2brightness s' = strip2maxBrightLvl s then True
              else if strip2brightness s' = 0 then False else strip2isMaxBrightness s) \<and>
           strip2maxBrightLvl s' = strip2maxBrightLvl s \<and>
           strip2_idle_in_bounds C s'"
  using assms
  by (simp add: strip2_idle_animation_def strip2_idle_in_bounds_def Let_def for_leds_all
        del: for_leds.simps)


lemma and_then_assoc: "and_then (and_then m f) g = and_then m (\<lambda>x. and_then (f x) g)"
  by (cases m) simp_all

lemma repeat_step_add:
  "repeat_step (m + n) f s = and_then (repeat_step m f s) (repeat_step n f)"
proof (induction m arbitrary: s)
  case 0
  show ?case by simp
next
  case (Suc m)
  show ?case
    by (cases "f s") (simp_all add: Suc.IH)
qed

lemma pingpong_ascend:
  fixes f :: "state \<Rightarrow> error + state" and br mx :: "state \<Rightarrow> 16 word"
  assumes step: "\<And>s. ok s \<Longrightarrow> \<exists>s'. f s = Inr s' \<and> ok s' \<and> mx s' = mx s \<and>
      br s' = (if \<not> fl s then (if sint (mx s) < sint (br s + 1) then mx s else br s + 1)
               else (if sint (br s - 1) < 0 then 0 else br s - 1)) \<and>
      fl s' = (if br s' = mx s then True else if br s' = 0 then False else fl s)"
    and "ok s" "\<not> fl s" "0 \<le> sint (br s)" "sint (br s) + int k \<le> sint (mx s)"
      "sint (mx s) < 32767"
  shows "\<exists>s'. repeat_step k f s = Inr s' \<and> ok s' \<and> mx s' = mx s \<and>
           sint (br s') = sint (br s) + int k \<and> fl s' = (0 < k \<and> sint (br s') = sint (mx s))"
  using assms(2-)
proof (induction k arbitrary: s)
  case 0
  then show ?case by simp
next
  case (Suc k)
  from step [OF Suc.prems(1)] obtain s1 where s1: "f s = Inr s1" "ok s1" "mx s1 = mx s"
    "br s1 = (if \<not> fl s then (if sint (mx s) < sint (br s + 1) then mx s else br s + 1)
               else (if sint (br s - 1) < 0 then 0 else br s - 1))"
    "fl s1 = (if br s1 = mx s then True else if br s1 = 0 then False else fl s)"
    by blast
  have lt: "sint (br s) < 32767" using Suc.prems by linarith
  have up: "sint (br s + 1) = sint (br s) + 1" by (rule sint16_succ [OF lt])
  have b1: "br s1 = br s + 1" using s1(4) Suc.prems up by simp
  have sb1: "sint (br s1) = sint (br s) + 1" using b1 up by simp
  have f1: "fl s1 = (sint (br s1) = sint (mx s))"
    using s1(5) Suc.prems(2) by (simp add: word_eq_iff_signed [where 'a = int])
  show ?case
  proof (cases "k = 0")
    case True
    then show ?thesis using s1 sb1 f1 by simp
  next
    case False
    then have nf: "\<not> fl s1" using f1 sb1 Suc.prems by simp
    from Suc.IH [OF s1(2) nf] obtain s' where "repeat_step k f s1 = Inr s'" "ok s'"
      "mx s' = mx s1" "sint (br s') = sint (br s1) + int k"
      "fl s' = (0 < k \<and> sint (br s') = sint (mx s1))"
      using Suc.prems sb1 s1(3) by force
    then show ?thesis using s1 sb1 False by simp
  qed
qed

lemma pingpong_descend:
  fixes f :: "state \<Rightarrow> error + state" and br mx :: "state \<Rightarrow> 16 word"
  assumes step: "\<And>s. ok s \<Longrightarrow> \<exists>s'. f s = Inr s' \<and> ok s' \<and> mx s' = mx s \<and>
      br s' = (if \<not> fl s then (if sint (mx s) < sint (br s + 1) then mx s else br s + 1)
               else (if sint (br s - 1) < 0 then 0 else br s - 1)) \<and>
      fl s' = (if br s' = mx s then True else if br s' = 0 then False else fl s)"
    and "ok s" "fl s" "sint (br s) \<le> sint (mx s)" "int k \<le> sint (br s)"
  shows "\<exists>s'. repeat_step k f s = Inr s' \<and> ok s' \<and> mx s' = mx s \<and>
           sint (br s') = sint (br s) - int k \<and> fl s' = (\<not> (0 < k \<and> sint (br s') = 0))"
  using assms(2-)
proof (induction k arbitrary: s)
  case 0
  then show ?case by simp
next
  case (Suc k)
  from step [OF Suc.prems(1)] obtain s1 where s1: "f s = Inr s1" "ok s1" "mx s1 = mx s"
    "br s1 = (if \<not> fl s then (if sint (mx s) < sint (br s + 1) then mx s else br s + 1)
               else (if sint (br s - 1) < 0 then 0 else br s - 1))"
    "fl s1 = (if br s1 = mx s then True else if br s1 = 0 then False else fl s)"
    by blast
  have gt: "- 32768 < sint (br s)" using Suc.prems by linarith
  have dn: "sint (br s - 1) = sint (br s) - 1" by (rule sint16_pred [OF gt])
  have b1: "br s1 = br s - 1" using s1(4) Suc.prems dn by simp
  have sb1: "sint (br s1) = sint (br s) - 1" using b1 dn by simp
  have ne: "br s1 \<noteq> mx s" using sb1 Suc.prems(3) by (auto simp: word_eq_iff_signed [where 'a = int])
  have f1: "fl s1 = (sint (br s1) \<noteq> 0)"
    using s1(5) Suc.prems(2) ne by (simp add: signed_eq_0_iff [where 'a = int])
  show ?case
  proof (cases "k = 0")
    case True
    then show ?thesis using s1 sb1 f1 by simp
  next
    case False
    then have nf: "fl s1" using f1 sb1 Suc.prems by simp
    from Suc.IH [OF s1(2) nf] obtain s' where "repeat_step k f s1 = Inr s'" "ok s'"
      "mx s' = mx s1" "sint (br s') = sint (br s1) - int k"
      "fl s' = (\<not> (0 < k \<and> sint (br s') = 0))"
      using Suc.prems sb1 s1(3) by force
    then show ?thesis using s1 sb1 False by simp
  qed
qed


lemma pingpong_cycle:
  fixes f :: "state \<Rightarrow> error + state" and br mx :: "state \<Rightarrow> 16 word"
  assumes step: "\<And>s. ok s \<Longrightarrow> \<exists>s'. f s = Inr s' \<and> ok s' \<and> mx s' = mx s \<and>
      br s' = (if \<not> fl s then (if sint (mx s) < sint (br s + 1) then mx s else br s + 1)
               else (if sint (br s - 1) < 0 then 0 else br s - 1)) \<and>
      fl s' = (if br s' = mx s then True else if br s' = 0 then False else fl s)"
    and ok: "ok s" and m: "0 < sint (mx s)" "sint (mx s) < 32767"
    and b: "0 \<le> sint (br s)" "sint (br s) \<le> sint (mx s)"
    and corner: "fl s \<longrightarrow> 0 < sint (br s)" "\<not> fl s \<longrightarrow> sint (br s) < sint (mx s)"
  shows "\<exists>s'. repeat_step (2 * nat (sint (mx s))) f s = Inr s' \<and>
           br s' = br s \<and> fl s' = fl s \<and> mx s' = mx s \<and> ok s'"
proof (cases "fl s")
  case False
  define k1 where "k1 = nat (sint (mx s) - sint (br s))"
  define k2 where "k2 = nat (sint (mx s))"
  define k3 where "k3 = nat (sint (br s))"
  have k: "2 * nat (sint (mx s)) = k1 + (k2 + k3)" "0 < k1" "0 < k2"
    "int k1 = sint (mx s) - sint (br s)" "int k2 = sint (mx s)" "int k3 = sint (br s)"
    using m b corner False by (simp_all add: k1_def k2_def k3_def)
  from pingpong_ascend [of ok f mx br fl, OF step ok False b(1) _ m(2), of k1]
  obtain s1 where s1: "repeat_step k1 f s = Inr s1" "ok s1" "mx s1 = mx s"
    "sint (br s1) = sint (mx s)" "fl s1"
    using k by auto
  from pingpong_descend [of ok f mx br fl, OF step s1(2) s1(5), of k2]
  obtain s2 where s2: "repeat_step k2 f s1 = Inr s2" "ok s2" "mx s2 = mx s"
    "sint (br s2) = 0" "\<not> fl s2"
    using k s1 by auto
  from pingpong_ascend [of ok f mx br fl, OF step s2(2) s2(5), of k3]
  obtain s3 where s3: "repeat_step k3 f s2 = Inr s3" "ok s3" "mx s3 = mx s"
    "sint (br s3) = sint (br s)" "\<not> fl s3"
    using k s2 m b corner False by auto
  have "repeat_step (2 * nat (sint (mx s))) f s = Inr s3"
    by (simp only: k(1) repeat_step_add s1(1) s2(1) s3(1) and_then_Inr)
  moreover have "br s3 = br s" using s3(4) by (rule signed_word_eqI [where 'a = int])
  ultimately show ?thesis using s3 False by simp
next
  case True
  define k1 where "k1 = nat (sint (br s))"
  define k2 where "k2 = nat (sint (mx s))"
  define k3 where "k3 = nat (sint (mx s) - sint (br s))"
  have k: "2 * nat (sint (mx s)) = k1 + (k2 + k3)" "0 < k1" "0 < k2"
    "int k1 = sint (br s)" "int k2 = sint (mx s)" "int k3 = sint (mx s) - sint (br s)"
    using m b corner True by (simp_all add: k1_def k2_def k3_def)
  from pingpong_descend [of ok f mx br fl, OF step ok True b(2), of k1]
  obtain s1 where s1: "repeat_step k1 f s = Inr s1" "ok s1" "mx s1 = mx s"
    "sint (br s1) = 0" "\<not> fl s1"
    using k by auto
  from pingpong_ascend [of ok f mx br fl, OF step s1(2) s1(5), of k2]
  obtain s2 where s2: "repeat_step k2 f s1 = Inr s2" "ok s2" "mx s2 = mx s"
    "sint (br s2) = sint (mx s)" "fl s2"
    using k s1 m by auto
  from pingpong_descend [of ok f mx br fl, OF step s2(2) s2(5), of k3]
  obtain s3 where s3: "repeat_step k3 f s2 = Inr s3" "ok s3" "mx s3 = mx s"
    "sint (br s3) = sint (br s)" "fl s3"
    using k s2 m b corner True by auto
  have "repeat_step (2 * nat (sint (mx s))) f s = Inr s3"
    by (simp only: k(1) repeat_step_add s1(1) s2(1) s3(1) and_then_Inr)
  moreover have "br s3 = br s" using s3(4) by (rule signed_word_eqI [where 'a = int])
  ultimately show ?thesis using s3 True by simp
qed

lemma strip1_idle_step_spec:
  assumes "strip1_idle_in_bounds C s"
  shows "\<exists>s'. strip1_idle_animation L C s = Inr s' \<and> strip1_idle_in_bounds C s' \<and>
      strip1maxBrightLvl s' = strip1maxBrightLvl s \<and>
      strip1brightness s' =
        (if \<not> strip1isMaxBrightness s
         then (if sint (strip1maxBrightLvl s) < sint (strip1brightness s + 1)
               then strip1maxBrightLvl s else strip1brightness s + 1)
         else (if sint (strip1brightness s - 1) < 0 then 0 else strip1brightness s - 1)) \<and>
      strip1isMaxBrightness s' =
        (if strip1brightness s' = strip1maxBrightLvl s then True
         else if strip1brightness s' = 0 then False else strip1isMaxBrightness s)"
proof -
  from strip1_idle_frame [OF assms, of L] obtain s' where
    "strip1_idle_animation L C s = Inr s'"
    "strip1brightness s' = strip1_get_brightness s (strip1brightness s)"
    "strip1isMaxBrightness s' =
       (if strip1brightness s' = strip1maxBrightLvl s then True
        else if strip1brightness s' = 0 then False else strip1isMaxBrightness s)"
    "strip1maxBrightLvl s' = strip1maxBrightLvl s"
    "strip1_idle_in_bounds C s'"
    by blast
  then show ?thesis
    by (intro exI [of _ s']) (simp add: strip1_get_brightness_def Let_def)
qed

lemma strip2_idle_step_spec:
  assumes "strip2_idle_in_bounds C s"
  shows "\<exists>s'. strip2_idle_animation L C s = Inr s' \<and> strip2_idle_in_bounds C s' \<and>
      strip2maxBrightLvl s' = strip2maxBrightLvl s \<and>
      strip2brightness s' =
        (if \<not> strip2isMaxBrightness s
         then (if sint (strip2maxBrightLvl s) < sint (strip2brightness s + 1)
               then strip2maxBrightLvl s else strip2brightness s + 1)
         else (if sint (strip2brightness s - 1) < 0 then 0 else strip2brightness s - 1)) \<and>
      strip2isMaxBrightness s' =
        (if strip2brightness s' = strip2maxBrightLvl s then True
         else if strip2brightness s' = 0 then False else strip2isMaxBrightness s)"
proof -
  from strip2_idle_frame [OF assms, of L] obtain s' where
    "strip2_idle_animation L C s = Inr s'"
    "strip2brightness s' = strip2_get_brightness s (strip2brightness s)"
    "strip2isMaxBrightness s' =
       (if strip2brightness s' = strip2maxBrightLvl s then True
        else if strip2brightness s' = 0 then False else strip2isMaxBrightness s)"
    "strip2maxBrightLvl s' = strip2maxBrightLvl s"
    "strip2_idle_in_bounds C s'"
    by blast
  then show ?thesis
    by (intro exI [of _ s']) (simp add: strip2_get_brightness_def Let_def)
qed

lemma pm25_idling_fields:
  "strip1brightness (pm25_idling b d) = b" "strip2brightness (pm25_idling b d) = b"
  "strip1isMaxBrightness (pm25_idling b d) = d" "strip2isMaxBrightness (pm25_idling b d) = d"
  "strip1maxBrightLvl (pm25_idling b d) = 255" "strip2maxBrightLvl (pm25_idling b d) = 255"
  "strip1playMode (pm25_idling b d) = IDLE_MODE" "strip2playMode (pm25_idling b d) = IDLE_MODE"
  "strip1_idle_in_bounds pm25_build (pm25_idling b d)"
  "strip2_idle_in_bounds pm25_build (pm25_idling b d)"
  by (simp_all add: pm25_idling_def arduino_setup_def register_readings_def pass_time_def
        initial_state_def pm25_build_def strip1_idle_in_bounds_def strip2_idle_in_bounds_def
        PM25band1_def PM25band2_def)

lemma pingpong_next:
  fixes b :: "16 word"
  assumes "0 \<le> sint b" "sint b \<le> 255" "f \<longrightarrow> 0 < sint b" "\<not> f \<longrightarrow> sint b < 255"
    and b'_def: "b' = (if \<not> f then (if sint (255 :: 16 word) < sint (b + 1) then 255 else b + 1)
                    else (if sint (b - 1) < 0 then 0 else b - 1))"
    and f'_def: "f' = (if b' = 255 then True else if b' = 0 then False else f)"
  shows "0 \<le> sint b' \<and> sint b' \<le> 255 \<and> (f' \<longrightarrow> 0 < sint b') \<and> (\<not> f' \<longrightarrow> sint b' < 255)"
proof (cases f)
  case False
  have up: "sint (b + 1) = sint b + 1" using assms(2) by (intro sint16_succ) simp
  have b': "b' = b + 1" using False assms(4) up by (simp add: b'_def)
  have e: "b' = 255 \<longleftrightarrow> sint b' = 255" "b' = 0 \<longleftrightarrow> sint b' = 0"
    by (simp_all add: word_eq_iff_signed [where 'a = int])
  show ?thesis
    unfolding f'_def e using False assms(1,2,4) up by (simp add: b')
next
  case True
  have dn: "sint (b - 1) = sint b - 1" using assms(1) by (intro sint16_pred) simp
  have b': "b' = b - 1" using True assms(3) dn by (simp add: b'_def)
  have e: "b' = 255 \<longleftrightarrow> sint b' = 255" "b' = 0 \<longleftrightarrow> sint b' = 0"
    by (simp_all add: word_eq_iff_signed [where 'a = int])
  show ?thesis
    unfolding f'_def e using True assms(1,2,3) dn by (simp add: b')
qed

lemma strip1_idle_keeps_pingpong:
  assumes "strip1_idle_animation L C s = Inr s'"
  shows "strip1_pingpong_ok s \<Longrightarrow> strip1_pingpong_ok s'"
    "strip2_pingpong_ok s' = strip2_pingpong_ok s"
proof -
  from strip1_idle_Inr_shape [OF assms] obtain l0 l1 l2 where
    s': "s' = s\<lparr>strip1brightness := strip1_get_brightness s (strip1brightness s),
             strip1Color := (strip1Color s)
               \<lparr>val := ucast (strip1_get_brightness s (strip1brightness s))\<rparr>,
             leds0 := l0, leds1 := l1, leds2 := l2,
             strip1isMaxBrightness :=
               (if strip1_get_brightness s (strip1brightness s) = strip1maxBrightLvl s then True
                else if strip1_get_brightness s (strip1brightness s) = 0 then False
                else strip1isMaxBrightness s)\<rparr>"
    by blast
  show "strip2_pingpong_ok s' = strip2_pingpong_ok s"
    unfolding s' by (simp add: strip2_pingpong_ok_def)
  assume ok: "strip1_pingpong_ok s"
  have m: "strip1maxBrightLvl s = 255" using ok by (simp add: strip1_pingpong_ok_def)
  have "0 \<le> sint (strip1brightness s') \<and> sint (strip1brightness s') \<le> 255 \<and>
      (strip1isMaxBrightness s' \<longrightarrow> 0 < sint (strip1brightness s')) \<and>
      (\<not> strip1isMaxBrightness s' \<longrightarrow> sint (strip1brightness s') < 255)"
  proof (rule pingpong_next [where b = "strip1brightness s" and f = "strip1isMaxBrightness s"])
    show "0 \<le> sint (strip1brightness s)" "sint (strip1brightness s) \<le> 255"
      "strip1isMaxBrightness s \<longrightarrow> 0 < sint (strip1brightness s)"
      "\<not> strip1isMaxBrightness s \<longrightarrow> sint (strip1brightness s) < 255"
      using ok by (simp_all add: strip1_pingpong_ok_def)
    show "strip1brightness s' =
        (if \<not> strip1isMaxBrightness s
         then (if sint (255 :: 16 word) < sint (strip1brightness s + 1) then 255
               else strip1brightness s + 1)
         else (if sint (strip1brightness s - 1) < 0 then 0 else strip1brightness s - 1))"
      unfolding s' by (simp add: strip1_get_brightness_def Let_def m)
    show "strip1isMaxBrightness s' =
        (if strip1brightness s' = 255 then True
         else if strip1brightness s' = 0 then False else strip1isMaxBrightness s)"
      unfolding s' by (simp add: m)
  qed
  moreover have "strip1maxBrightLvl s' = 255" unfolding s' by (simp add: m)
  ultimately show "strip1_pingpong_ok s'"
    by (simp add: strip1_pingpong_ok_def)
qed

lemma strip2_idle_keeps_pingpong:
  assumes "strip2_idle_animation L C s = Inr s'"
  shows "strip2_pingpong_ok s \<Longrightarrow> strip2_pingpong_ok s'"
    "strip1_pingpong_ok s' = strip1_pingpong_ok s"
proof -
  from strip2_idle_Inr_shape [OF assms] obtain l1 l3 where
    s': "s' = s\<lparr>strip2brightness := strip2_get_brightness s (strip2brightness s),
             strip2Color := (strip2Color s)
               \<lparr>val := ucast (strip2_get_brightness s (strip2brightness s))\<rparr>,
             leds1 := l1, leds3 := l3,
             strip2isMaxBrightness :=
               (if strip2_get_brightness s (strip2brightness s) = strip2maxBrightLvl s then True
                else if strip2_get_brightness s (strip2brightness s) = 0 then False
                else strip2isMaxBrightness s)\<rparr>"
    by blast
  show "strip1_pingpong_ok s' = strip1_pingpong_ok s"
    unfolding s' by (simp add: strip1_pingpong_ok_def)
  assume ok: "strip2_pingpong_ok s"
  have m: "strip2maxBrightLvl s = 255" using ok by (simp add: strip2_pingpong_ok_def)
  have "0 \<le> sint (strip2brightness s') \<and> sint (strip2brightness s') \<le> 255 \<and>
      (strip2isMaxBrightness s' \<longrightarrow> 0 < sint (strip2brightness s')) \<and>
      (\<not> strip2isMaxBrightness s' \<longrightarrow> sint (strip2brightness s') < 255)"
  proof (rule pingpong_next [where b = "strip2brightness s" and f = "strip2isMaxBrightness s"])
    show "0 \<le> sint (strip2brightness s)" "sint (strip2brightness s) \<le> 255"
      "strip2isMaxBrightness s \<longrightarrow> 0 < sint (strip2brightness s)"
      "\<not> strip2isMaxBrightness s \<longrightarrow> sint (strip2brightness s) < 255"
      using ok by (simp_all add: strip2_pingpong_ok_def)
    show "strip2brightness s' =
        (if \<not> strip2isMaxBrightness s
         then (if sint (255 :: 16 word) < sint (strip2brightness s + 1) then 255
               else strip2brightness s + 1)
         else (if sint (strip2brightness s - 1) < 0 then 0 else strip2brightness s - 1))"
      unfolding s' by (simp add: strip2_get_brightness_def Let_def m)
    show "strip2isMaxBrightness s' =
        (if strip2brightness s' = 255 then True
         else if strip2brightness s' = 0 then False else strip2isMaxBrightness s)"
      unfolding s' by (simp add: m)
  qed
  moreover have "strip2maxBrightLvl s' = 255" unfolding s' by (simp add: m)
  ultimately show "strip2_pingpong_ok s'"
    by (simp add: strip2_pingpong_ok_def)
qed


lemma strip1_playback_keeps_pingpong:
  assumes "strip1_playback_readings L C s = Inr s'"
  shows "strip1_pingpong_ok s \<Longrightarrow> strip1_pingpong_ok s'"
    "strip2_pingpong_ok s' = strip2_pingpong_ok s"
proof -
  have "(strip1_pingpong_ok s \<longrightarrow> strip1_pingpong_ok s') \<and>
        strip2_pingpong_ok s' = strip2_pingpong_ok s"
  proof -
    consider (fade) "strip1activeLedState s = 0" | (interp) "strip1activeLedState s = 1"
      | (toidle) "strip1activeLedState s = 2"
      | (other) "strip1activeLedState s \<noteq> 0" "strip1activeLedState s \<noteq> 1"
          "strip1activeLedState s \<noteq> 2"
      by blast
    then show ?thesis
    proof cases
      case fade
      then obtain s1 faded where "strip1_fade L C s = Inr s1" "strip1_has_fade L C s1 = Inr faded"
        "s' = (if faded = True then
                 s1\<lparr>strip1activeLedState := 1,
                    strip1bandms := 0,
                    strip1readingsCounter := 0,
                    strip1prevBrightVal := 0,
                    strip1currBrightVal := 0,
                    strip1Color := (strip1Color s1)\<lparr>val := 0\<rparr>\<rparr>
               else s1)"
        using assms by (auto simp: strip1_playback_readings_def and_then_eq_Inr)
      then show ?thesis
        by (auto simp: strip1_pingpong_ok_def strip2_pingpong_ok_def dest!: strip1_fade_Inr)
    next
      case interp
      show ?thesis
      proof (cases "int (strip1bandms s) < BAND_DELAY * 2")
        case True
        then have r: "unat (strip1readingsCounter s) < length (readings1 s)"
          using assms interp by (auto simp: strip1_playback_readings_def split: if_splits)
        then show ?thesis
          using assms interp True
          by (auto simp: strip1_playback_readings_def Let_def strip1_pingpong_ok_def
              strip2_pingpong_ok_def dest!: strip1_set_brightLevel_Inr split: if_splits)
      next
        case False
        then show ?thesis
          using assms interp
          by (auto simp: strip1_playback_readings_def Let_def strip1_pingpong_ok_def
              strip2_pingpong_ok_def split: if_splits)
      qed
    next
      case toidle
      then obtain s1 faded where "strip1_fade L C s = Inr s1" "strip1_has_fade L C s1 = Inr faded"
        "s' = (if faded then strip1_go_idle s1 else s1)"
        using assms by (auto simp: strip1_playback_readings_def and_then_eq_Inr)
      then show ?thesis
        by (auto simp: strip1_go_idle_def strip1_pingpong_ok_def strip2_pingpong_ok_def
            dest!: strip1_fade_Inr)
    next
      case other
      then show ?thesis using assms by (simp add: strip1_playback_readings_def)
    qed
  qed
  then show "strip1_pingpong_ok s \<Longrightarrow> strip1_pingpong_ok s'"
    "strip2_pingpong_ok s' = strip2_pingpong_ok s"
    by simp_all
qed

lemma strip2_playback_keeps_pingpong:
  assumes "strip2_playback_readings L C s = Inr s'"
  shows "strip2_pingpong_ok s \<Longrightarrow> strip2_pingpong_ok s'"
    "strip1_pingpong_ok s' = strip1_pingpong_ok s"
proof -
  have "(strip2_pingpong_ok s \<longrightarrow> strip2_pingpong_ok s') \<and>
        strip1_pingpong_ok s' = strip1_pingpong_ok s"
  proof -
    consider (fade) "strip2activeLedState s = 0" | (interp) "strip2activeLedState s = 1"
      | (toidle) "strip2activeLedState s = 2"
      | (other) "strip2activeLedState s \<noteq> 0" "strip2activeLedState s \<noteq> 1"
          "strip2activeLedState s \<noteq> 2"
      by blast
    then show ?thesis
    proof cases
      case fade
      then obtain s1 faded where "strip2_fade L C s = Inr s1" "strip2_has_fade L C s1 = Inr faded"
        "s' = (if faded = True then
                 s1\<lparr>strip2activeLedState := 1,
                    strip2bandms := 0,
                    strip2readingsCounter := 0,
                    strip2prevBrightVal := 0,
                    strip2currBrightVal := 0,
                    strip2Color := (strip2Color s1)\<lparr>val := 0\<rparr>\<rparr>
               else s1)"
        using assms by (auto simp: strip2_playback_readings_def and_then_eq_Inr)
      then show ?thesis
        by (auto simp: strip2_pingpong_ok_def strip1_pingpong_ok_def dest!: strip2_fade_Inr)
    next
      case interp
      show ?thesis
      proof (cases "int (strip2bandms s) < BAND_DELAY * 2")
        case True
        then have r: "unat (strip2readingsCounter s) < length (readings2 s)"
          using assms interp by (auto simp: strip2_playback_readings_def split: if_splits)
        then show ?thesis
          using assms interp True
          by (auto simp: strip2_playback_readings_def Let_def strip2_pingpong_ok_def
              strip1_pingpong_ok_def dest!: strip2_set_brightLevel_Inr split: if_splits)
      next
        case False
        then show ?thesis
          using assms interp
          by (auto simp: strip2_playback_readings_def Let_def strip2_pingpong_ok_def
              strip1_pingpong_ok_def split: if_splits)
      qed
    next
      case toidle
      then obtain s1 faded where "strip2_fade L C s = Inr s1" "strip2_has_fade L C s1 = Inr faded"
        "s' = (if faded then strip2_go_idle s1 else s1)"
        using assms by (auto simp: strip2_playback_readings_def and_then_eq_Inr)
      then show ?thesis
        by (auto simp: strip2_go_idle_def strip2_pingpong_ok_def strip1_pingpong_ok_def
            dest!: strip2_fade_Inr)
    next
      case other
      then show ?thesis using assms by (simp add: strip2_playback_readings_def)
    qed
  qed
  then show "strip2_pingpong_ok s \<Longrightarrow> strip2_pingpong_ok s'"
    "strip1_pingpong_ok s' = strip1_pingpong_ok s"
    by simp_all
qed

lemma pure_steps_keep_pingpong:
  "strip1_pingpong_ok (read_console inp s) = strip1_pingpong_ok s"
  "strip2_pingpong_ok (read_console inp s) = strip2_pingpong_ok s"
  "strip1_pingpong_ok (do_colour_variation s) = strip1_pingpong_ok s"
  "strip2_pingpong_ok (do_colour_variation s) = strip2_pingpong_ok s"
  "strip1_pingpong_ok (set_playMode s) = strip1_pingpong_ok s"
  "strip2_pingpong_ok (set_playMode s) = strip2_pingpong_ok s"
  "strip1_pingpong_ok (pass_time ms s) = strip1_pingpong_ok s"
  "strip2_pingpong_ok (pass_time ms s) = strip2_pingpong_ok s"
  by (simp_all add: strip1_pingpong_ok_def strip2_pingpong_ok_def read_console_def
        do_colour_variation_def set_playMode_def pass_time_def Let_def)

lemma add_glitter_keeps_pingpong:
  "strip1_pingpong_ok (add_glitter gs s) = strip1_pingpong_ok s"
  "strip2_pingpong_ok (add_glitter gs s) = strip2_pingpong_ok s"
proof -
  from add_glitter_shape [of gs s] obtain l0 l1 l2 l3 where
    "add_glitter gs s = s\<lparr>leds0 := l0, leds1 := l1, leds2 := l2, leds3 := l3\<rparr>" by blast
  then show "strip1_pingpong_ok (add_glitter gs s) = strip1_pingpong_ok s"
    "strip2_pingpong_ok (add_glitter gs s) = strip2_pingpong_ok s"
    by (simp_all add: strip1_pingpong_ok_def strip2_pingpong_ok_def)
qed

lemma loop_keeps_pingpong:
  assumes "loop L C inp s = Inr s'" "strip1_pingpong_ok s" "strip2_pingpong_ok s"
  shows "strip1_pingpong_ok s' \<and> strip2_pingpong_ok s'"
proof -
  let ?s1 = "set_playMode (do_colour_variation (read_console inp s))"
  from assms(1) obtain s2 s3 where
    a: "(if strip1playMode ?s1 = IDLE_MODE then strip1_idle_animation L C ?s1
         else if strip1playMode ?s1 = BUTTON_MODE then strip1_playback_readings L C ?s1
         else Inr ?s1) = Inr s2"
    and b: "(if strip2playMode s2 = IDLE_MODE then strip2_idle_animation L C s2
            else if strip2playMode s2 = BUTTON_MODE then strip2_playback_readings L C s2
            else Inr s2) = Inr s3"
    and c: "s' = pass_time (elapsed inp) (add_glitter (glitter inp) s3)"
    unfolding loop_unfold and_then_eq_Inr by blast
  have ok1: "strip1_pingpong_ok ?s1" "strip2_pingpong_ok ?s1"
    using assms(2,3) by (simp_all add: pure_steps_keep_pingpong)
  have ok2: "strip1_pingpong_ok s2 \<and> strip2_pingpong_ok s2"
    using a ok1 strip1_idle_keeps_pingpong [of L C ?s1 s2]
      strip1_playback_keeps_pingpong [of L C ?s1 s2]
    by (simp split: if_splits)
  have "strip1_pingpong_ok s3 \<and> strip2_pingpong_ok s3"
    using b ok2 strip2_idle_keeps_pingpong [of L C s2 s3]
      strip2_playback_keeps_pingpong [of L C s2 s3]
    by (simp split: if_splits)
  then show ?thesis
    unfolding c by (simp add: pure_steps_keep_pingpong add_glitter_keeps_pingpong)
qed

lemma reachable_pingpong_ok:
  "reachable L C s \<Longrightarrow> strip1_pingpong_ok s \<and> strip2_pingpong_ok s"
proof (induction rule: reachable.induct)
  case (reachable_setup boot_ms)
  show ?case
    by (simp add: arduino_setup_def register_readings_def pass_time_def initial_state_def
          strip1_pingpong_ok_def strip2_pingpong_ok_def)
next
  case (reachable_loop s inp s')
  then show ?case using loop_keeps_pingpong by blast
qed

text \<open>
  Claim C5. In every state that the firmware reaches from \<^verbatim>\<open>setup()\<close>, so for every
  brightness and direction flag that a strip in idle mode can have, \<open>2 * maxBrightLvl\<close>
  applications of the idle animation step return the brightness, and the direction flag, to
  their starting values, provided the pixel loops of the step stay inside their arrays (the
  step returns no state otherwise). This holds for both strips. The same is stated for any
  state, reached or not, whose brightness lies between 0 and a positive maximum level, with
  the direction flag clear only below the maximum and set only above 0; the reached states
  are of this kind, with maximum level 255.
\<close>

theorem idle_pingpong_full_cycle:
  "(strip1_idle_in_bounds C s \<and>
    0 < sint (strip1maxBrightLvl s) \<and> sint (strip1maxBrightLvl s) < 32767 \<and>
    0 \<le> sint (strip1brightness s) \<and> sint (strip1brightness s) \<le> sint (strip1maxBrightLvl s) \<and>
    (strip1isMaxBrightness s \<longrightarrow> 0 < sint (strip1brightness s)) \<and>
    (\<not> strip1isMaxBrightness s \<longrightarrow> sint (strip1brightness s) < sint (strip1maxBrightLvl s)) \<longrightarrow>
      (\<exists>s'. repeat_step (2 * nat (sint (strip1maxBrightLvl s))) (strip1_idle_animation L C) s = Inr s' \<and>
         strip1brightness s' = strip1brightness s \<and>
         strip1isMaxBrightness s' = strip1isMaxBrightness s)) \<and>
   (strip2_idle_in_bounds C s \<and>
    0 < sint (strip2maxBrightLvl s) \<and> sint (strip2maxBrightLvl s) < 32767 \<and>
    0 \<le> sint (strip2brightness s) \<and> sint (strip2brightness s) \<le> sint (strip2maxBrightLvl s) \<and>
    (strip2isMaxBrightness s \<longrightarrow> 0 < sint (strip2brightness s)) \<and>
    (\<not> strip2isMaxBrightness s \<longrightarrow> sint (strip2brightness s) < sint (strip2maxBrightLvl s)) \<longrightarrow>
      (\<exists>s'. repeat_step (2 * nat (sint (strip2maxBrightLvl s))) (strip2_idle_animation L C) s = Inr s' \<and>
         strip2brightness s' = strip2brightness s \<and>
         strip2isMaxBrightness s' = strip2isMaxBrightness s)) \<and>
   (reachable L C s \<longrightarrow>
      strip1_pingpong_ok s \<and> strip2_pingpong_ok s \<and>
      (strip1_idle_in_bounds C s \<longrightarrow>
         (\<exists>s'. repeat_step (2 * nat (sint (strip1maxBrightLvl s))) (strip1_idle_animation L C) s
                  = Inr s' \<and>
            strip1brightness s' = strip1brightness s \<and>
            strip1isMaxBrightness s' = strip1isMaxBrightness s)) \<and>
      (strip2_idle_in_bounds C s \<longrightarrow>
         (\<exists>s'. repeat_step (2 * nat (sint (strip2maxBrightLvl s))) (strip2_idle_animation L C) s
                  = Inr s' \<and>
            strip2brightness s' = strip2brightness s \<and>
            strip2isMaxBrightness s' = strip2isMaxBrightness s)))"
proof -
  have c1: "\<exists>s'. repeat_step (2 * nat (sint (strip1maxBrightLvl s))) (strip1_idle_animation L C) s = Inr s' \<and>
         strip1brightness s' = strip1brightness s \<and>
         strip1isMaxBrightness s' = strip1isMaxBrightness s"
    if a: "strip1_idle_in_bounds C s \<and>
    0 < sint (strip1maxBrightLvl s) \<and> sint (strip1maxBrightLvl s) < 32767 \<and>
    0 \<le> sint (strip1brightness s) \<and> sint (strip1brightness s) \<le> sint (strip1maxBrightLvl s) \<and>
    (strip1isMaxBrightness s \<longrightarrow> 0 < sint (strip1brightness s)) \<and>
    (\<not> strip1isMaxBrightness s \<longrightarrow> sint (strip1brightness s) < sint (strip1maxBrightLvl s))"
  proof -
    have "\<exists>s'. repeat_step (2 * nat (sint (strip1maxBrightLvl s))) (strip1_idle_animation L C) s = Inr s' \<and>
         strip1brightness s' = strip1brightness s \<and>
         strip1isMaxBrightness s' = strip1isMaxBrightness s \<and>
         strip1maxBrightLvl s' = strip1maxBrightLvl s \<and> strip1_idle_in_bounds C s'"
      by (rule pingpong_cycle [where ok = "strip1_idle_in_bounds C", OF strip1_idle_step_spec])
         (use a in simp_all)
    then obtain s' where
      "repeat_step (2 * nat (sint (strip1maxBrightLvl s))) (strip1_idle_animation L C) s = Inr s'"
      "strip1brightness s' = strip1brightness s"
      "strip1isMaxBrightness s' = strip1isMaxBrightness s"
      by blast
    then show ?thesis
      by (intro exI [of _ s']) simp
  qed
  have c2: "\<exists>s'. repeat_step (2 * nat (sint (strip2maxBrightLvl s))) (strip2_idle_animation L C) s = Inr s' \<and>
         strip2brightness s' = strip2brightness s \<and>
         strip2isMaxBrightness s' = strip2isMaxBrightness s"
    if a: "strip2_idle_in_bounds C s \<and>
    0 < sint (strip2maxBrightLvl s) \<and> sint (strip2maxBrightLvl s) < 32767 \<and>
    0 \<le> sint (strip2brightness s) \<and> sint (strip2brightness s) \<le> sint (strip2maxBrightLvl s) \<and>
    (strip2isMaxBrightness s \<longrightarrow> 0 < sint (strip2brightness s)) \<and>
    (\<not> strip2isMaxBrightness s \<longrightarrow> sint (strip2brightness s) < sint (strip2maxBrightLvl s))"
  proof -
    have "\<exists>s'. repeat_step (2 * nat (sint (strip2maxBrightLvl s))) (strip2_idle_animation L C) s = Inr s' \<and>
         strip2brightness s' = strip2brightness s \<and>
         strip2isMaxBrightness s' = strip2isMaxBrightness s \<and>
         strip2maxBrightLvl s' = strip2maxBrightLvl s \<and> strip2_idle_in_bounds C s'"
      by (rule pingpong_cycle [where ok = "strip2_idle_in_bounds C", OF strip2_idle_step_spec])
         (use a in simp_all)
    then obtain s' where
      "repeat_step (2 * nat (sint (strip2maxBrightLvl s))) (strip2_idle_animation L C) s = Inr s'"
      "strip2brightness s' = strip2brightness s"
      "strip2isMaxBrightness s' = strip2isMaxBrightness s"
      by blast
    then show ?thesis
      by (intro exI [of _ s']) simp
  qed
  have r: "strip1_pingpong_ok s \<and> strip2_pingpong_ok s" if "reachable L C s"
    using that by (rule reachable_pingpong_ok)
  have r1: "\<exists>s'. repeat_step (2 * nat (sint (strip1maxBrightLvl s))) (strip1_idle_animation L C) s
                  = Inr s' \<and>
            strip1brightness s' = strip1brightness s \<and>
            strip1isMaxBrightness s' = strip1isMaxBrightness s"
    if "reachable L C s" "strip1_idle_in_bounds C s"
    using c1 r [OF that(1)] that(2) by (simp add: strip1_pingpong_ok_def)
  have r2: "\<exists>s'. repeat_step (2 * nat (sint (strip2maxBrightLvl s))) (strip2_idle_animation L C) s
                  = Inr s' \<and>
            strip2brightness s' = strip2brightness s \<and>
            strip2isMaxBrightness s' = strip2isMaxBrightness s"
    if "reachable L C s" "strip2_idle_in_bounds C s"
    using c2 r [OF that(1)] that(2) by (simp add: strip2_pingpong_ok_def)
  show ?thesis
  proof (intro conjI impI)
    show "strip1_pingpong_ok s" if "reachable L C s" using r [OF that] by simp
    show "strip2_pingpong_ok s" if "reachable L C s" using r [OF that] by simp
  qed (use c1 c2 r1 r2 in blast)+
qed

text \<open>
  Both strips of the PM2.5 build at brightness 130 on the way up, and the state that
  \<^verbatim>\<open>setup()\<close> leaves.
\<close>

theorem idle_pingpong_full_cycle_witness:
  "strip1_idle_in_bounds pm25_build (pm25_idling 130 False) \<and>
   strip2_idle_in_bounds pm25_build (pm25_idling 130 False) \<and>
   sint (strip1maxBrightLvl (pm25_idling 130 False)) = 255 \<and>
   sint (strip2maxBrightLvl (pm25_idling 130 False)) = 255 \<and>
   sint (strip1brightness (pm25_idling 130 False)) = 130 \<and>
   sint (strip2brightness (pm25_idling 130 False)) = 130 \<and>
   \<not> strip1isMaxBrightness (pm25_idling 130 False) \<and>
   \<not> strip2isMaxBrightness (pm25_idling 130 False) \<and>
   (\<exists>s'. repeat_step 510 (strip1_idle_animation grey_fastled pm25_build) (pm25_idling 130 False) = Inr s' \<and>
      strip1brightness s' = 130 \<and> \<not> strip1isMaxBrightness s') \<and>
   (\<exists>s'. repeat_step 510 (strip2_idle_animation grey_fastled pm25_build) (pm25_idling 130 False) = Inr s' \<and>
      strip2brightness s' = 130 \<and> \<not> strip2isMaxBrightness s') \<and>
   reachable grey_fastled pm25_build (arduino_setup pm25_build 2010) \<and>
   strip1_idle_in_bounds pm25_build (arduino_setup pm25_build 2010) \<and>
   strip2_idle_in_bounds pm25_build (arduino_setup pm25_build 2010) \<and>
   (\<exists>s'. repeat_step 510 (strip1_idle_animation grey_fastled pm25_build)
            (arduino_setup pm25_build 2010) = Inr s' \<and>
      strip1brightness s' = 0 \<and> \<not> strip1isMaxBrightness s') \<and>
   (\<exists>s'. repeat_step 510 (strip2_idle_animation grey_fastled pm25_build)
            (arduino_setup pm25_build 2010) = Inr s' \<and>
      strip2brightness s' = 0 \<and> \<not> strip2isMaxBrightness s')"
proof -
  have i: "arduino_setup pm25_build 2010 = pm25_idling 0 False"
    by (simp add: pm25_idling_def arduino_setup_def register_readings_def pass_time_def
          initial_state_def)
  have r: "reachable grey_fastled pm25_build (arduino_setup pm25_build 2010)"
    by (rule reachable_setup)
  note t = idle_pingpong_full_cycle [of pm25_build "pm25_idling 130 False" grey_fastled]
  note u = idle_pingpong_full_cycle [of pm25_build "arduino_setup pm25_build 2010" grey_fastled,
      THEN conjunct2, THEN conjunct2, rule_format, OF r]
  have a: "\<exists>s'. repeat_step 510 (strip1_idle_animation grey_fastled pm25_build) (pm25_idling 130 False) = Inr s' \<and>
      strip1brightness s' = 130 \<and> \<not> strip1isMaxBrightness s'"
    "\<exists>s'. repeat_step 510 (strip2_idle_animation grey_fastled pm25_build) (pm25_idling 130 False) = Inr s' \<and>
      strip2brightness s' = 130 \<and> \<not> strip2isMaxBrightness s'"
    using t by (simp_all add: pm25_idling_fields)
  have b: "\<exists>s'. repeat_step 510 (strip1_idle_animation grey_fastled pm25_build)
            (arduino_setup pm25_build 2010) = Inr s' \<and>
      strip1brightness s' = 0 \<and> \<not> strip1isMaxBrightness s'"
    "\<exists>s'. repeat_step 510 (strip2_idle_animation grey_fastled pm25_build)
            (arduino_setup pm25_build 2010) = Inr s' \<and>
      strip2brightness s' = 0 \<and> \<not> strip2isMaxBrightness s'"
    using u by (simp_all add: i pm25_idling_fields)
  show ?thesis
    using a b r by (simp add: i pm25_idling_fields)
qed

end
